theory Spec2Isabelle
  imports Complex_Main "HOL-Library.Log_Nat" "HOL-Library.Sublist"
begin

section \<open>Accountant Assist: statement parser, routine filter and balance forecast\<close>

text \<open>
  A shallow embedding of \<^verbatim>\<open>accountant.py\<close>. The program reads expense lines of bank
  statements, keeps the routine daily expenses by a two-stage statistical filter and
  projects the balance to day 30 of the month.

  Conventions of the embedding.
  \<^item> Text is a \<open>string\<close>; a \<open>char\<close> stands for the Unicode code point of the same number,
    so the model covers text whose code points are below 256.
  \<^item> A Python \<open>float\<close> is an IEEE binary64 value. The result of \<open>float(...)\<close> is a
    \<open>pyfloat\<close>: a finite value (the rational it denotes), an infinity or NaN. The sign
    of zero is not kept.
  \<^item> Every float operation rounds its exact result to binary64 (\<open>fl\<close>, round to nearest,
    ties to even, with gradual underflow). The amounts of the rows and the values computed
    from them are \<open>pyfloat\<close>s, with the arithmetic of infinities and NaN; the balance of
    a forecast is a finite float, modelled as a rational.
  \<^item> \<open>Series.quantile\<close> and \<open>Series.median\<close> belong to pandas, which computes them with
    numpy; they are modelled step by step in binary64.
  \<^item> Printing, the progress animation and the chart are not modelled. A forecast that
    the source abandons with a message and a bare \<open>return\<close> is an error value.
\<close>

subsection \<open>Binary64 rounding\<close>

definition pow2 :: "int \<Rightarrow> rat" where
  "pow2 e = (if 0 \<le> e then 2 ^ nat e else 1 / 2 ^ nat (- e))"

text \<open>\<open>ilog2 x\<close> is the binary exponent of a positive rational: \<open>2^e \<le> x < 2^(e+1)\<close>.\<close>

definition ilog2 :: "rat \<Rightarrow> int" where
  "ilog2 x = (let (p, q) = quotient_of x; d = bitlen p - bitlen q
              in if pow2 d \<le> x then d else d - 1)"

definition round_half_even :: "rat \<Rightarrow> int" where
  "round_half_even y =
     (let f = \<lfloor>y\<rfloor>; r = y - of_int f
      in if r < 1 / 2 then f else if 1 / 2 < r then f + 1
         else if even f then f else f + 1)"

text \<open>
  Rounding to binary64: a 53-bit significand at the exponent of the argument, the
  exponent never below that of the subnormal numbers.
\<close>

definition fl :: "rat \<Rightarrow> rat" where
  "fl x = (if x = 0 then 0
           else let e = max (ilog2 \<bar>x\<bar>) (- 1022); q = pow2 (e - 52)
                in of_int (round_half_even (x / q)) * q)"

definition fsub :: "rat \<Rightarrow> rat \<Rightarrow> rat" where
  "fsub x y = fl (x - y)"

definition fmul :: "rat \<Rightarrow> rat \<Rightarrow> rat" where
  "fmul x y = fl (x * y)"

text \<open>An \<open>int\<close> operand of a float operation is converted to float first.\<close>

definition int_to_float :: "int \<Rightarrow> rat" where
  "int_to_float i = fl (of_int i)"

text \<open>The literal \<^verbatim>\<open>1.15\<close> denotes the binary64 value nearest to 115/100.\<close>

definition c115 :: rat where
  "c115 = fl (115 / 100)"

datatype pyfloat = Fin rat | PInf | NInf | NaN

text \<open>The comparison \<^verbatim>\<open>x > 0\<close> on a float; every comparison with NaN is false.\<close>

fun pf_gt0 :: "pyfloat \<Rightarrow> bool" where
  "pf_gt0 (Fin r) = (0 < r)"
| "pf_gt0 PInf = True"
| "pf_gt0 NInf = False"
| "pf_gt0 NaN = False"

fun pf_nonneg :: "pyfloat \<Rightarrow> bool" where
  "pf_nonneg (Fin r) = (0 \<le> r)"
| "pf_nonneg PInf = True"
| "pf_nonneg NInf = False"
| "pf_nonneg NaN = False"

subsection \<open>Characters and the \<open>float\<close> constructor on text\<close>

text \<open>\<open>str.isspace\<close>, \<open>str.strip\<close> and the regular expression class \<^verbatim>\<open>\s\<close> below 256.\<close>

definition unicode_space :: "char \<Rightarrow> bool" where
  "unicode_space c \<longleftrightarrow> c \<in> set [CHR 0x09, CHR 0x0A, CHR 0x0B, CHR 0x0C, CHR 0x0D,
     CHR 0x1C, CHR 0x1D, CHR 0x1E, CHR 0x1F, CHR 0x20, CHR 0x85, CHR 0xA0]"

text \<open>The ASCII white space that \<open>float\<close> strips from both ends.\<close>

definition c_space :: "char \<Rightarrow> bool" where
  "c_space c \<longleftrightarrow> c \<in> set [CHR 0x09, CHR 0x0A, CHR 0x0B, CHR 0x0C, CHR 0x0D, CHR 0x20]"

definition is_digit :: "char \<Rightarrow> bool" where
  "is_digit c \<longleftrightarrow> c \<in> set ''0123456789''"

definition digit_val :: "char \<Rightarrow> int" where
  "digit_val c = of_char c - 48"

definition digits_val :: "string \<Rightarrow> int" where
  "digits_val ds = foldl (\<lambda>a c. 10 * a + digit_val c) 0 ds"

definition ascii_lower :: "char \<Rightarrow> char" where
  "ascii_lower c = (let n = of_char c :: int in if 65 \<le> n \<and> n \<le> 90 then char_of (n + 32) else c)"

text \<open>
  \<open>float\<close> first maps a non-ASCII white space to a blank and any other non-ASCII
  character to \<open>?\<close> (there is no decimal digit between 128 and 255).
\<close>

definition to_ascii :: "string \<Rightarrow> string" where
  "to_ascii s = map (\<lambda>c. if (of_char c :: int) < 128 then c
                          else if unicode_space c then CHR '' '' else CHR ''?'') s"

definition strip_c :: "string \<Rightarrow> string" where
  "strip_c s = rev (dropWhile c_space (rev (dropWhile c_space s)))"

text \<open>
  Underscores are allowed between two digits only; they are removed before the number
  is read. The first argument is the previous character.
\<close>

fun us_check :: "char \<Rightarrow> string \<Rightarrow> string option" where
  "us_check prev [] = (if prev = CHR ''_'' then None else Some [])"
| "us_check prev (c # cs) =
     (if c = CHR ''_'' then (if is_digit prev then us_check c cs else None)
      else if prev = CHR ''_'' \<and> \<not> is_digit c then None
      else map_option (Cons c) (us_check c cs))"

definition underscores :: "string \<Rightarrow> string option" where
  "underscores s = (if CHR ''_'' \<in> set s then us_check (CHR 0x00) s else Some s)"

definition take_sign :: "string \<Rightarrow> bool \<times> string" where
  "take_sign s = (case s of
       c # r \<Rightarrow> if c = CHR ''-'' then (True, r) else if c = CHR ''+'' then (False, r) else (False, s)
     | [] \<Rightarrow> (False, s))"

text \<open>
  The value of a decimal numeral with significand \<open>m\<close> and decimal exponent \<open>e10\<close>,
  correctly rounded; a value beyond the binary64 range is an infinity.
\<close>

definition pow10 :: "int \<Rightarrow> rat" where
  "pow10 e = (if 0 \<le> e then 10 ^ nat e else 1 / 10 ^ nat (- e))"

text \<open>A rounded magnitude of \<open>2^1024\<close> or more is outside the binary64 range.\<close>

definition overflows :: "rat \<Rightarrow> bool" where
  "overflows r \<longleftrightarrow> 0 < r \<and> 1024 \<le> ilog2 r"

definition mk_float :: "bool \<Rightarrow> int \<Rightarrow> int \<Rightarrow> pyfloat" where
  "mk_float neg m e10 =
     (let r = fl (of_int m * pow10 e10)
      in if overflows r then (if neg then NInf else PInf)
         else Fin (if neg then - r else r))"

text \<open>The exponent part: nothing, or \<open>e\<close>, an optional sign and at least one digit.\<close>

definition parse_exp :: "string \<Rightarrow> int option" where
  "parse_exp s = (case s of
       [] \<Rightarrow> Some 0
     | c # r \<Rightarrow>
         if c = CHR ''e'' \<or> c = CHR ''E'' then
           (let (neg, ds) = take_sign r
            in if ds \<noteq> [] \<and> list_all is_digit ds
               then Some (if neg then - digits_val ds else digits_val ds)
               else None)
         else None)"

text \<open>
  A decimal numeral: sign, digits, an optional point with digits, at least one digit
  in all, an optional exponent, and nothing after it.
\<close>

definition parse_decimal :: "string \<Rightarrow> pyfloat option" where
  "parse_decimal s =
     (let (neg, s1) = take_sign s;
          ip = takeWhile is_digit s1;
          r1 = dropWhile is_digit s1;
          (fp, r2) = (case r1 of
                        c # t \<Rightarrow> if c = CHR ''.'' then (takeWhile is_digit t, dropWhile is_digit t)
                                 else ([], r1)
                      | [] \<Rightarrow> ([], []))
      in if ip = [] \<and> fp = [] then None
         else (case parse_exp r2 of
                 None \<Rightarrow> None
               | Some ex \<Rightarrow> Some (mk_float neg (digits_val (ip @ fp)) (ex - int (length fp)))))"

definition parse_inf_nan :: "string \<Rightarrow> pyfloat option" where
  "parse_inf_nan s =
     (let (neg, r) = take_sign s; w = map ascii_lower r
      in if w = ''inf'' \<or> w = ''infinity'' then Some (if neg then NInf else PInf)
         else if w = ''nan'' then Some NaN
         else None)"

text \<open>\<open>float(s)\<close> for a string \<open>s\<close>; \<open>None\<close> is the \<open>ValueError\<close>.\<close>

definition py_float :: "string \<Rightarrow> pyfloat option" where
  "py_float s =
     (let t = strip_c (to_ascii s)
      in if t = [] then None
         else (case underscores t of
                 None \<Rightarrow> None
               | Some u \<Rightarrow> (case parse_decimal u of
                              Some v \<Rightarrow> Some v
                            | None \<Rightarrow> parse_inf_nan u)))"

subsection \<open>\<open>bersihkan_nominal\<close>\<close>

text \<open>\<open>s.replace(c, "")\<close> and \<open>s.replace(a, b)\<close> for one-character arguments.\<close>

definition str_remove :: "char \<Rightarrow> string \<Rightarrow> string" where
  "str_remove c s = filter (\<lambda>x. x \<noteq> c) s"

definition str_replace :: "char \<Rightarrow> char \<Rightarrow> string \<Rightarrow> string" where
  "str_replace a b s = map (\<lambda>x. if x = a then b else x) s"

definition bersihkan_nominal :: "string \<Rightarrow> pyfloat" where
  "bersihkan_nominal nominal =
     (let n1 = str_remove (CHR '' '') (str_remove (CHR ''-'') (str_remove (CHR ''+'') nominal));
          n2 = str_replace (CHR '','') (CHR ''.'') (str_remove (CHR ''.'') n1)
      in case py_float n2 of Some x \<Rightarrow> x | None \<Rightarrow> Fin 0)"

subsection \<open>The transaction parser\<close>

text \<open>A row of the data frame; the column of the amounts holds floats.\<close>

record 'a transaksi =
  Deskripsi :: string
  Pengeluaran :: 'a

text \<open>The character class \<^verbatim>\<open>[0-9\.\,]\<close>.\<close>

definition kelas_angka :: "char \<Rightarrow> bool" where
  "kelas_angka c \<longleftrightarrow> is_digit c \<or> c = CHR ''.'' \<or> c = CHR '',''"

text \<open>
  The pattern \<^verbatim>\<open>-\s?[0-9\.\,]+\<close> tried at the head of a string: the match and the
  text after it. A white space after the dash is taken when the class follows it; the
  greedy class takes the longest run.
\<close>

definition match_at :: "string \<Rightarrow> (string \<times> string) option" where
  "match_at s = (case s of
       [] \<Rightarrow> None
     | c # r \<Rightarrow>
         if c \<noteq> CHR ''-'' then None
         else (case r of
                 [] \<Rightarrow> None
               | w # t \<Rightarrow>
                   if unicode_space w \<and> takeWhile kelas_angka t \<noteq> []
                   then Some (c # w # takeWhile kelas_angka t, dropWhile kelas_angka t)
                   else if takeWhile kelas_angka r \<noteq> []
                   then Some (c # takeWhile kelas_angka r, dropWhile kelas_angka r)
                   else None))"

text \<open>
  \<open>re.findall\<close>: the matches from left to right, each search starting where the last
  match ended, or one character further when there is no match at the position.
\<close>

function re_findall :: "string \<Rightarrow> string list" where
  "re_findall [] = []"
| "re_findall (c # s) = (case match_at (c # s) of
       Some (m, rest) \<Rightarrow> m # re_findall rest
     | None \<Rightarrow> re_findall s)"
  by pat_completeness auto
termination
proof (relation "measure length")
  show "wf (measure length)" by simp
next
  fix c :: char and s :: string and x2 x y
  assume "match_at (c # s) = Some x2" and "(x, y) = x2"
  then have "length y \<le> length s"
    by (auto simp: match_at_def le_SucI length_dropWhile_le
        split: if_splits list.splits)
  then show "(y, c # s) \<in> measure length" by simp
next
  fix c :: char and s :: string
  show "(s, c # s) \<in> measure length" by simp
qed

text \<open>\<open>str.strip()\<close> and \<open>str.split("\n")\<close>.\<close>

definition strip :: "string \<Rightarrow> string" where
  "strip s = rev (dropWhile unicode_space (rev (dropWhile unicode_space s)))"

fun split_on :: "char \<Rightarrow> string \<Rightarrow> string list" where
  "split_on d [] = [] # []"
| "split_on d (c # cs) =
     (if c = d then [] # split_on d cs
      else (case split_on d cs of
              [] \<Rightarrow> [c] # []
            | l # ls \<Rightarrow> (c # l) # ls))"

text \<open>The body of the loop over the lines: the rows appended for one line.\<close>

definition proses_baris :: "string \<Rightarrow> pyfloat transaksi list" where
  "proses_baris line =
     (let match = re_findall line
      in if match \<noteq> [] then
           (let nominal = bersihkan_nominal (last match)
            in if pf_gt0 nominal
               then [\<lparr>Deskripsi = strip line, Pengeluaran = nominal\<rparr>]
               else [])
         else [])"

text \<open>
  A document is the list of what \<open>extract_text\<close> returns for its pages (\<open>None\<close> or a
  text). The pages from the third on are read; a page without text is skipped.
\<close>

definition extract_transaksi_harian_jago :: "string option list \<Rightarrow> pyfloat transaksi list" where
  "extract_transaksi_harian_jago pages =
     concat (map (\<lambda>page. case page of
                     None \<Rightarrow> []
                   | Some text \<Rightarrow> if text = [] then []
                                  else concat (map proses_baris (split_on (CHR 0x0A) text)))
                 (drop 2 pages))"

subsection \<open>The batch aggregator\<close>

text \<open>\<open>str.lower\<close> below 256, and the test \<^verbatim>\<open>f.lower().endswith(".pdf")\<close>.\<close>

definition lower_char :: "char \<Rightarrow> char" where
  "lower_char c =
     (let n = of_char c :: int
      in if (65 \<le> n \<and> n \<le> 90) \<or> (192 \<le> n \<and> n \<le> 222 \<and> n \<noteq> 215)
         then char_of (n + 32) else c)"

definition is_pdf :: "string \<Rightarrow> bool" where
  "is_pdf f \<longleftrightarrow> suffix ''.pdf'' (map lower_char f)"

text \<open>
  A folder is the list of its entries in the order of \<open>os.listdir\<close>, each with the pages
  of the document. The frames that are not empty are concatenated and the rows with a
  positive amount are kept.
\<close>

definition pdfs_to_dataframe :: "(string \<times> string option list) list \<Rightarrow> pyfloat transaksi list" where
  "pdfs_to_dataframe folder_pdf =
     (let pdf_files = filter (\<lambda>(f, pages). is_pdf f) folder_pdf
      in if pdf_files = [] then []
         else (let all_data = filter (\<lambda>df. df \<noteq> [])
                                (map (\<lambda>(f, pages). extract_transaksi_harian_jago pages) pdf_files)
               in if all_data = [] then []
                  else filter (\<lambda>t. pf_gt0 (Pengeluaran t)) (concat all_data)))"

subsection \<open>Float arithmetic with infinities and NaN\<close>

text \<open>
  The result of a float operation: the exact result rounded to binary64, an infinity
  when the rounded magnitude is outside the range.
\<close>

definition bulat :: "rat \<Rightarrow> pyfloat" where
  "bulat x = (let r = fl x
              in if overflows \<bar>r\<bar> then (if 0 < r then PInf else NInf) else Fin r)"

fun pf_neg :: "pyfloat \<Rightarrow> pyfloat" where
  "pf_neg (Fin x) = Fin (- x)"
| "pf_neg PInf = NInf"
| "pf_neg NInf = PInf"
| "pf_neg NaN = NaN"

fun pf_add :: "pyfloat \<Rightarrow> pyfloat \<Rightarrow> pyfloat" where
  "pf_add (Fin x) (Fin y) = bulat (x + y)"
| "pf_add NaN b = NaN"
| "pf_add a NaN = NaN"
| "pf_add PInf NInf = NaN"
| "pf_add NInf PInf = NaN"
| "pf_add PInf b = PInf"
| "pf_add a PInf = PInf"
| "pf_add NInf b = NInf"
| "pf_add a NInf = NInf"

definition pf_sub :: "pyfloat \<Rightarrow> pyfloat \<Rightarrow> pyfloat" where
  "pf_sub a b = pf_add a (pf_neg b)"

fun pf_sgn :: "pyfloat \<Rightarrow> int" where
  "pf_sgn (Fin x) = (if 0 < x then 1 else if x < 0 then - 1 else 0)"
| "pf_sgn PInf = 1"
| "pf_sgn NInf = - 1"
| "pf_sgn NaN = 0"

text \<open>An infinity times zero is NaN; otherwise the signs multiply.\<close>

fun pf_mul :: "pyfloat \<Rightarrow> pyfloat \<Rightarrow> pyfloat" where
  "pf_mul (Fin x) (Fin y) = bulat (x * y)"
| "pf_mul NaN b = NaN"
| "pf_mul a NaN = NaN"
| "pf_mul a b = (let s = pf_sgn a * pf_sgn b
                 in if s = 0 then NaN else if 0 < s then PInf else NInf)"

text \<open>Division by a positive count, as in the mean of \<open>d\<close> values.\<close>

fun pf_div_count :: "pyfloat \<Rightarrow> rat \<Rightarrow> pyfloat" where
  "pf_div_count (Fin x) d = bulat (x / d)"
| "pf_div_count a d = a"

text \<open>The comparisons \<^verbatim>\<open><=\<close> and \<^verbatim>\<open><\<close>; a comparison with NaN is false.\<close>

fun pf_le :: "pyfloat \<Rightarrow> pyfloat \<Rightarrow> bool" where
  "pf_le NaN b = False"
| "pf_le a NaN = False"
| "pf_le NInf b = True"
| "pf_le a PInf = True"
| "pf_le (Fin x) (Fin y) = (x \<le> y)"
| "pf_le a b = False"

fun pf_lt :: "pyfloat \<Rightarrow> pyfloat \<Rightarrow> bool" where
  "pf_lt NaN b = False"
| "pf_lt a NaN = False"
| "pf_lt PInf b = False"
| "pf_lt a NInf = False"
| "pf_lt (Fin x) (Fin y) = (x < y)"
| "pf_lt a b = True"

text \<open>
  The builtins \<open>min(a, b)\<close> and \<open>max(a, b)\<close>: the first argument unless the second is
  smaller, respectively greater; so a first argument that is NaN is returned.
\<close>

definition py_min :: "pyfloat \<Rightarrow> pyfloat \<Rightarrow> pyfloat" where
  "py_min a b = (if pf_lt b a then b else a)"

definition py_max :: "pyfloat \<Rightarrow> pyfloat \<Rightarrow> pyfloat" where
  "py_max a b = (if pf_lt a b then b else a)"

subsection \<open>Quantile and median of a column\<close>

text \<open>Sorting an array without NaN into ascending order.\<close>

fun np_insert :: "pyfloat \<Rightarrow> pyfloat list \<Rightarrow> pyfloat list" where
  "np_insert x [] = [x]"
| "np_insert x (y # ys) = (if pf_le x y then x # y # ys else y # np_insert x ys)"

definition np_sort :: "pyfloat list \<Rightarrow> pyfloat list" where
  "np_sort xs = foldr np_insert xs []"

text \<open>
  The interpolation of numpy between two neighbours \<open>a\<close> and \<open>b\<close> with weight \<open>t\<close>:
  \<open>a + (b - a) * t\<close>, replaced by \<open>b - (b - a) * (1 - t)\<close> where \<open>t >= 0.5\<close>.
\<close>

definition np_lerp :: "pyfloat \<Rightarrow> pyfloat \<Rightarrow> rat \<Rightarrow> pyfloat" where
  "np_lerp a b t =
     (let diff_b_a = pf_sub b a;
          lerp_interpolation = pf_add a (pf_mul diff_b_a (Fin t))
      in if 1 / 2 \<le> t then pf_sub b (pf_mul diff_b_a (Fin (fl (1 - t))))
         else lerp_interpolation)"

text \<open>
  \<open>Series.quantile(q)\<close> with the default linear interpolation, as pandas hands it to
  \<open>numpy.percentile\<close>: the NaN values are dropped, and an empty column gives NaN; \<open>q\<close> is
  scaled by 100 and back; the virtual index is \<open>(n - 1) * q\<close>; the two neighbours are
  the values at its floor and the next position, both being the last value when the
  virtual index is at or beyond \<open>n - 1\<close> (index \<open>-1\<close>) and the first when it is negative;
  the weight is the virtual index minus the index of the first neighbour.
\<close>

definition quantile :: "pyfloat list \<Rightarrow> rat \<Rightarrow> pyfloat" where
  "quantile xs q =
     (let values = filter (\<lambda>v. v \<noteq> NaN) xs
      in if values = [] then NaN
         else (let arr = np_sort values;
                   values_count = int (length arr);
                   quantiles = fl (fl (q * 100) / 100);
                   virtual_index = fl (of_int (values_count - 1) * quantiles);
                   above = (of_int (values_count - 1) \<le> virtual_index);
                   below = (virtual_index < 0);
                   previous_index = (if above then - 1 else if below then 0
                                     else \<lfloor>virtual_index\<rfloor>);
                   next_index = (if above then - 1 else if below then 0
                                 else \<lfloor>virtual_index\<rfloor> + 1);
                   previous = arr ! nat (if previous_index < 0 then values_count + previous_index
                                         else previous_index);
                   next = arr ! nat (if next_index < 0 then values_count + next_index
                                     else next_index);
                   gamma = fl (virtual_index - of_int previous_index)
               in np_lerp previous next gamma))"

text \<open>
  \<open>Series.median()\<close>: the NaN values are dropped, and an empty column gives NaN; the
  middle value of the sorted values, or the mean of the two middle values, their sum
  divided by 2 (the mean of the one middle value is that value).
\<close>

definition median :: "pyfloat list \<Rightarrow> pyfloat" where
  "median xs =
     (let values = filter (\<lambda>v. v \<noteq> NaN) xs
      in if values = [] then NaN
         else (let part = np_sort values; sz = length part
               in if odd sz then part ! (sz div 2)
                  else pf_div_count (pf_add (part ! (sz div 2 - 1)) (part ! (sz div 2))) 2))"

subsection \<open>The routine filter\<close>

text \<open>\<open>frame[mask]\<close>: the rows at which the mask is true, in their order.\<close>

definition boolean_index :: "'a list \<Rightarrow> bool list \<Rightarrow> 'a list" where
  "boolean_index rows msk = map fst (filter snd (zip rows msk))"

text \<open>
  The literals \<^verbatim>\<open>0.25\<close>, \<^verbatim>\<open>0.75\<close>, \<^verbatim>\<open>1.5\<close> and \<^verbatim>\<open>0.5\<close> are binary64 values; \<^verbatim>\<open>0.20\<close> and
  \<^verbatim>\<open>0.80\<close> denote the binary64 values nearest to 1/5 and 4/5. The comparisons of a
  column with a bound give a mask, false where the amount or the bound is NaN.
\<close>

definition filter_pengeluaran_rutin :: "pyfloat transaksi list \<Rightarrow> pyfloat transaksi list" where
  "filter_pengeluaran_rutin data =
     (if data = [] then data
      else (let Q1 = quantile (map Pengeluaran data) (25 / 100);
                Q3 = quantile (map Pengeluaran data) (75 / 100);
                IQR = pf_sub Q3 Q1;
                batas_atas = pf_add Q3 (pf_mul (Fin (3 / 2)) IQR);
                cap_maksimum = Fin 100000;
                batas_atas = py_min batas_atas cap_maksimum;
                batas_bawah = py_max (pf_mul Q1 (Fin (1 / 2))) (Fin 5000);
                data_filtered = boolean_index data
                  (map (\<lambda>t. pf_le batas_bawah (Pengeluaran t) \<and>
                            pf_le (Pengeluaran t) batas_atas) data);
                p20 = quantile (map Pengeluaran data_filtered) (fl (20 / 100));
                p80 = quantile (map Pengeluaran data_filtered) (fl (80 / 100))
            in boolean_index data_filtered
                 (map (\<lambda>t. pf_le p20 (Pengeluaran t) \<and> pf_le (Pengeluaran t) p80)
                    data_filtered)))"

subsection \<open>The forecaster\<close>

text \<open>A parsed date; the day of the month is between 1 and 31.\<close>

record tanggal =
  year :: int
  month :: nat
  day :: nat

text \<open>
  The three ways in which the forecast is abandoned, in the order of the checks, and the
  exception that \<open>int\<close> raises on a value that is not finite.
\<close>

datatype galat = DateUnparseable | PeriodExhausted | InsufficientData | NumericError

text \<open>The four messages on the final balance.\<close>

datatype kategori = Defisit | Tipis | Cukup | Aman

definition klasifikasi :: "rat \<Rightarrow> kategori" where
  "klasifikasi estimasi_saldo_akhir =
     (if estimasi_saldo_akhir < 0 then Defisit
      else if estimasi_saldo_akhir < 100000 then Tipis
      else if estimasi_saldo_akhir < 300000 then Cukup
      else Aman)"

text \<open>
  \<open>round(x, -3)\<close> on a float is the float nearest to \<open>x\<close> rounded to a multiple of 1000,
  ties to the even multiple; \<open>int\<close> truncates towards zero.
\<close>

definition round_ribuan :: "rat \<Rightarrow> rat" where
  "round_ribuan x = fl (1000 * of_int (round_half_even (x / 1000)))"

definition py_int :: "rat \<Rightarrow> int" where
  "py_int x = (if 0 \<le> x then \<lfloor>x\<rfloor> else \<lceil>x\<rceil>)"

record hasil =
  sisa_hari :: int
  median_harian :: rat
  estimasi_harian :: int
  total_pengeluaran_sisa :: int
  estimasi_saldo_akhir :: rat
  kategori_saldo :: kategori
  saldo_harian :: "rat list"
  tanggal_list :: "int list"

text \<open>
  One round of the simulation loop; the state is the running balance with the two lists
  built so far.
\<close>

definition langkah :: "int \<Rightarrow> int \<Rightarrow> rat \<times> rat list \<times> int list \<Rightarrow> int \<Rightarrow> rat \<times> rat list \<times> int list" where
  "langkah estimasi hari_sekarang st i =
     (case st of (saldo, saldo_h, tanggal_l) \<Rightarrow>
        (let saldo' = fsub saldo (int_to_float estimasi)
         in (saldo', saldo_h @ [saldo'], tanggal_l @ [hari_sekarang + i])))"

definition simulasi :: "rat \<Rightarrow> int \<Rightarrow> int \<Rightarrow> int \<Rightarrow> rat \<times> rat list \<times> int list" where
  "simulasi saldo_saat_ini estimasi hari_sekarang sisa =
     foldl (langkah estimasi hari_sekarang) (saldo_saat_ini, [saldo_saat_ini], [hari_sekarang]) [1..sisa]"

text \<open>
  The second argument is the outcome of the cascade of date parsers: the date, or \<open>None\<close>
  when no format matches. The balance is a finite float.
\<close>

definition prediksi_harian :: "rat \<Rightarrow> tanggal option \<Rightarrow> pyfloat transaksi list \<Rightarrow> galat + hasil" where
  "prediksi_harian saldo_saat_ini tanggal_input data_asli =
     (case tanggal_input of
        None \<Rightarrow> Inl DateUnparseable
      | Some tgl \<Rightarrow>
          (let hari_bulan = 30;
               hari_sekarang = int (day tgl);
               sisa = hari_bulan - hari_sekarang
           in if sisa \<le> 0 then Inl PeriodExhausted
              else (let data_rutin = filter_pengeluaran_rutin data_asli
                    in if data_rutin = [] then Inl InsufficientData
                       else (case median (map Pengeluaran data_rutin) of
                               Fin med \<Rightarrow>
                                 (case pf_mul (Fin med) (Fin c115) of
                                    Fin p \<Rightarrow>
                                      (let estimasi = py_int (round_ribuan p);
                                           total = estimasi * sisa;
                                           akhir = fsub saldo_saat_ini (int_to_float total);
                                           sim = simulasi saldo_saat_ini estimasi hari_sekarang sisa
                                       in Inr \<lparr>sisa_hari = sisa,
                                               median_harian = med,
                                               estimasi_harian = estimasi,
                                               total_pengeluaran_sisa = total,
                                               estimasi_saldo_akhir = akhir,
                                               kategori_saldo = klasifikasi akhir,
                                               saldo_harian = fst (snd sim),
                                               tanggal_list = snd (snd sim)\<rparr>)
                                  | _ \<Rightarrow> Inl NumericError)
                             | _ \<Rightarrow> Inl NumericError))))"

section \<open>The statements of the specification\<close>

text \<open>
  Definitions that follow the words of the specification, to be compared with the
  functions above.
\<close>

text \<open>
  Normalization as the specification words it: the signs, the blanks and the thousands
  separators are dropped and the decimal comma becomes a point.
\<close>

definition normalisasi_spec :: "string \<Rightarrow> string" where
  "normalisasi_spec s =
     map (\<lambda>c. if c = CHR '','' then CHR ''.'' else c)
       (filter (\<lambda>c. c \<notin> {CHR ''+'', CHR ''-'', CHR '' '', CHR ''.''}) s)"

text \<open>
  A text that is, as a whole, one match of the pattern of the source: a dash, at most one
  white space, and one or more digits and separators.
\<close>

definition pola :: "string \<Rightarrow> bool" where
  "pola m \<longleftrightarrow> (case m of
       [] \<Rightarrow> False
     | c # r \<Rightarrow> c = CHR ''-'' \<and>
         (let ds = (case r of [] \<Rightarrow> [] | w # t \<Rightarrow> if unicode_space w then t else r)
          in ds \<noteq> [] \<and> list_all kelas_angka ds))"

text \<open>
  The pattern as the specification words it, with an optional dash: the dash if there
  is one, the white space if there is one, then the digits and separators.
\<close>

definition match_at_spec :: "string \<Rightarrow> (string \<times> string) option" where
  "match_at_spec s =
     (let (d, r) = (case s of [] \<Rightarrow> ([], s)
                     | c # r \<Rightarrow> if c = CHR ''-'' then ([c], r) else ([], s));
          (w, t) = (case r of [] \<Rightarrow> ([], r)
                     | c # t \<Rightarrow> if unicode_space c then ([c], t) else ([], r))
      in if takeWhile kelas_angka t \<noteq> []
         then Some (d @ w @ takeWhile kelas_angka t, dropWhile kelas_angka t)
         else None)"

function re_findall_spec :: "string \<Rightarrow> string list" where
  "re_findall_spec [] = []"
| "re_findall_spec (c # s) = (case match_at_spec (c # s) of
       Some (m, rest) \<Rightarrow> m # re_findall_spec rest
     | None \<Rightarrow> re_findall_spec s)"
  by pat_completeness auto
termination
proof (relation "measure length")
  show "wf (measure length)" by simp
next
  fix c :: char and s :: string and x2 x y
  assume "match_at_spec (c # s) = Some x2" and "(x, y) = x2"
  then have "length y \<le> length s"
    by (auto simp: match_at_spec_def Let_def le_SucI length_dropWhile_le
        split: if_splits list.splits prod.splits
        intro: order_trans[OF length_dropWhile_le])
  then show "(y, c # s) \<in> measure length" by simp
next
  fix c :: char and s :: string
  show "(s, c # s) \<in> measure length" by simp
qed

definition proses_baris_spec :: "string \<Rightarrow> pyfloat transaksi list" where
  "proses_baris_spec line =
     (let match = re_findall_spec line
      in if match \<noteq> [] then
           (let nominal = bersihkan_nominal (last match)
            in if pf_gt0 nominal
               then [\<lparr>Deskripsi = strip line, Pengeluaran = nominal\<rparr>]
               else [])
         else [])"

text \<open>
  Rounding to the nearest thousand, with the two rules for a tie that the specification
  allows: to the even thousand, and away from zero.
\<close>

definition bulat_ribuan_genap :: "rat \<Rightarrow> int" where
  "bulat_ribuan_genap x = 1000 * round_half_even (x / 1000)"

definition bulat_ribuan_menjauh :: "rat \<Rightarrow> int" where
  "bulat_ribuan_menjauh x =
     1000 * (if 0 \<le> x then \<lfloor>x / 1000 + 1 / 2\<rfloor> else \<lceil>x / 1000 - 1 / 2\<rceil>)"

text \<open>
  The percentile by linear interpolation in exact arithmetic, and the two stages of the
  routine filter with it, on a list of finite amounts: the statement of the
  specification read without rounding.
\<close>

definition persentil_eksak :: "rat list \<Rightarrow> rat \<Rightarrow> rat option" where
  "persentil_eksak xs q =
     (if xs = [] then None
      else (let s = sort xs;
                h = q * of_nat (length xs - 1);
                i = nat \<lfloor>h\<rfloor>;
                lo = s ! i;
                hi = s ! min (i + 1) (length xs - 1)
            in Some (lo + (hi - lo) * (h - of_int \<lfloor>h\<rfloor>))))"

definition dalam_pita :: "rat option \<Rightarrow> rat option \<Rightarrow> rat \<Rightarrow> bool" where
  "dalam_pita lo hi x = (case (lo, hi) of (Some l, Some u) \<Rightarrow> l \<le> x \<and> x \<le> u | _ \<Rightarrow> False)"

definition saring_rutin_eksak :: "rat list \<Rightarrow> rat list" where
  "saring_rutin_eksak xs =
     (case (persentil_eksak xs (1 / 4), persentil_eksak xs (3 / 4)) of
        (Some Q1, Some Q3) \<Rightarrow>
          (let upper = min (Q3 + 3 / 2 * (Q3 - Q1)) 100000;
               lower = max (Q1 * (1 / 2)) 5000;
               kept = filter (\<lambda>x. lower \<le> x \<and> x \<le> upper) xs
           in filter (dalam_pita (persentil_eksak kept (1 / 5)) (persentil_eksak kept (4 / 5))) kept)
      | _ \<Rightarrow> [])"

text \<open>
  The percentile by linear interpolation in binary64: in the sorted values that are
  not NaN, at the position \<open>h = (n - 1) * q\<close>, between the value \<open>lo\<close> at the floor of \<open>h\<close>
  and its successor \<open>hi\<close>, with the weight \<open>g = h - floor h\<close>: \<open>lo + (hi - lo) * g\<close> when
  \<open>g < 1/2\<close> and \<open>hi - (hi - lo) * (1 - g)\<close> otherwise, every operation rounded. The
  percentile of no values is NaN.
\<close>

definition persentil64 :: "pyfloat list \<Rightarrow> rat \<Rightarrow> pyfloat" where
  "persentil64 xs q =
     (let s = np_sort (filter (\<lambda>v. v \<noteq> NaN) xs); n = length s
      in if n = 0 then NaN
         else (let h = fl (of_nat (n - 1) * q);
                   i = nat \<lfloor>h\<rfloor>;
                   g = fl (h - of_int \<lfloor>h\<rfloor>);
                   lo = s ! i;
                   hi = s ! min (i + 1) (n - 1);
                   d = pf_sub hi lo
               in if g < 1 / 2 then pf_add lo (pf_mul d (Fin g))
                  else pf_sub hi (pf_mul d (Fin (fl (1 - g))))))"

text \<open>
  The balance after \<open>k\<close> rounds of repeated subtraction in binary64, from the balance \<open>s\<close>
  with the daily estimate \<open>e\<close>.
\<close>

fun saldo_ke :: "rat \<Rightarrow> int \<Rightarrow> nat \<Rightarrow> rat" where
  "saldo_ke s e 0 = s"
| "saldo_ke s e (Suc k) = fl (saldo_ke s e k - of_int e)"

section \<open>Properties\<close>

subsection \<open>Facts about binary64 rounding\<close>

lemma pow2_powi: "pow2 e = 2 powi e"
  by (simp add: pow2_def power_int_def field_simps)

lemma pow2_pos: "0 < pow2 e"
  by (simp add: pow2_powi)

lemma pow2_add: "pow2 (a + b) = pow2 a * pow2 b"
  by (simp add: pow2_powi power_int_add)

lemma pow2_mono: "a \<le> b \<Longrightarrow> pow2 a \<le> pow2 b"
  by (simp add: pow2_powi power_int_increasing)

lemma pow2_nat: "pow2 (int n) = 2 ^ n"
  by (simp add: pow2_def)

lemma ilog2_bounds:
  assumes "0 < x"
  shows "pow2 (ilog2 x) \<le> x \<and> x < pow2 (ilog2 x + 1)"
proof -
  obtain p q where pq: "quotient_of x = (p, q)" by (cases "quotient_of x")
  have q: "0 < q" using pq quotient_of_denom_pos by blast
  have x: "x = of_int p / of_int q" using pq quotient_of_div by blast
  have p: "0 < p" using assms q x by (simp add: zero_less_divide_iff)
  define d where "d = bitlen p - bitlen q"
  have bp: "2 ^ nat (bitlen p - 1) \<le> p" "p < 2 ^ nat (bitlen p)"
    using bitlen_bounds[OF p] by auto
  have bq: "2 ^ nat (bitlen q - 1) \<le> q" "q < 2 ^ nat (bitlen q)"
    using bitlen_bounds[OF q] by auto
  have bp1: "1 \<le> bitlen p" using p by (simp add: bitlen_alt_def)
  have bq1: "1 \<le> bitlen q" using q by (simp add: bitlen_alt_def)
  have P1: "pow2 (bitlen p - 1) \<le> of_int p"
  proof -
    have "(of_int (2 ^ nat (bitlen p - 1)) :: rat) \<le> of_int p" using bp(1) by (simp only: of_int_le_iff)
    then show ?thesis using bp1 by (simp add: pow2_def)
  qed
  have P2: "of_int p < pow2 (bitlen p)"
  proof -
    have "(of_int p :: rat) < of_int (2 ^ nat (bitlen p))" using bp(2) by (simp only: of_int_less_iff)
    then show ?thesis using bp1 by (simp add: pow2_def)
  qed
  have Q1: "pow2 (bitlen q - 1) \<le> of_int q"
  proof -
    have "(of_int (2 ^ nat (bitlen q - 1)) :: rat) \<le> of_int q" using bq(1) by (simp only: of_int_le_iff)
    then show ?thesis using bq1 by (simp add: pow2_def)
  qed
  have Q2: "of_int q < pow2 (bitlen q)"
  proof -
    have "(of_int q :: rat) < of_int (2 ^ nat (bitlen q))" using bq(2) by (simp only: of_int_less_iff)
    then show ?thesis using bq1 by (simp add: pow2_def)
  qed
  have qpos: "(0::rat) < of_int q" using q by simp
  have lo: "pow2 (d - 1) < x"
  proof -
    have "pow2 (d - 1) * pow2 (bitlen q) = pow2 (bitlen p - 1)"
      by (simp add: d_def pow2_add[symmetric])
    then have "pow2 (d - 1) * pow2 (bitlen q) \<le> of_int p" using P1 by simp
    moreover have "pow2 (d - 1) * of_int q < pow2 (d - 1) * pow2 (bitlen q)"
      using Q2 pow2_pos[of "d - 1"] by simp
    ultimately have "pow2 (d - 1) * of_int q < of_int p" by linarith
    then show ?thesis using qpos by (simp add: x pos_less_divide_eq)
  qed
  have hi: "x < pow2 (d + 1)"
  proof -
    have "pow2 (d + 1) * pow2 (bitlen q - 1) = pow2 (bitlen p)"
      by (simp add: d_def pow2_add[symmetric])
    moreover have "pow2 (d + 1) * pow2 (bitlen q - 1) \<le> pow2 (d + 1) * of_int q"
      using Q1 pow2_pos[of "d + 1"] by simp
    ultimately have "of_int p < pow2 (d + 1) * of_int q" using P2 by linarith
    then show ?thesis using qpos by (simp add: x pos_divide_less_eq)
  qed
  have il: "ilog2 x = (if pow2 d \<le> x then d else d - 1)"
    by (simp add: ilog2_def pq d_def Let_def)
  show ?thesis
  proof (cases "pow2 d \<le> x")
    case True
    then show ?thesis using il hi by simp
  next
    case False
    then show ?thesis using il lo by simp
  qed
qed

lemma round_half_even_bound: "\<bar>of_int (round_half_even y) - y\<bar> \<le> 1 / 2"
proof -
  have "of_int \<lfloor>y\<rfloor> \<le> y" "y < of_int \<lfloor>y\<rfloor> + 1" by linarith+
  then show ?thesis
    by (auto simp: round_half_even_def Let_def)
qed

lemma round_half_even_of_int: "round_half_even (of_int k) = k"
  by (simp add: round_half_even_def)

lemma fl_error:
  assumes "x \<noteq> 0"
  shows "\<bar>fl x - x\<bar> \<le> pow2 (max (ilog2 \<bar>x\<bar>) (- 1022) - 53)"
proof -
  define e where "e = max (ilog2 \<bar>x\<bar>) (- 1022)"
  define q where "q = pow2 (e - 52)"
  have q: "0 < q" by (simp add: q_def pow2_pos)
  have f: "fl x = of_int (round_half_even (x / q)) * q"
    using assms by (simp add: fl_def Let_def e_def q_def)
  have "\<bar>of_int (round_half_even (x / q)) - x / q\<bar> \<le> 1 / 2"
    by (rule round_half_even_bound)
  then have "\<bar>of_int (round_half_even (x / q)) - x / q\<bar> * q \<le> 1 / 2 * q"
    using q by (simp only: mult_le_cancel_right) simp
  moreover have "\<bar>of_int (round_half_even (x / q)) - x / q\<bar> * q = \<bar>fl x - x\<bar>"
  proof -
    have "(of_int (round_half_even (x / q)) - x / q) * q = fl x - x"
      using q by (simp add: f left_diff_distrib)
    then have "\<bar>fl x - x\<bar> = \<bar>of_int (round_half_even (x / q)) - x / q\<bar> * \<bar>q\<bar>"
      by (simp only: abs_mult[symmetric])
    then show ?thesis using q by simp
  qed
  moreover have "1 / 2 * q = pow2 (e - 53)"
  proof -
    have "pow2 (e - 52) = pow2 (e - 53) * pow2 1" by (simp add: pow2_add[symmetric])
    then show ?thesis by (simp add: q_def pow2_def)
  qed
  ultimately show ?thesis by (simp add: e_def)
qed

lemma fl_of_int:
  assumes "\<bar>i\<bar> \<le> 2 ^ 53"
  shows "fl (of_int i) = of_int i"
proof (cases "i = 0")
  case True
  then show ?thesis by (simp add: fl_def)
next
  case False
  define x :: rat where "x = of_int i"
  have x0: "x \<noteq> 0" using False by (simp add: x_def)
  have ax: "0 < \<bar>x\<bar>" using x0 by simp
  define e where "e = max (ilog2 \<bar>x\<bar>) (- 1022)"
  define q where "q = pow2 (e - 52)"
  have f: "fl x = of_int (round_half_even (x / q)) * q"
    using x0 by (simp add: fl_def Let_def e_def q_def)
  have b: "pow2 (ilog2 \<bar>x\<bar>) \<le> \<bar>x\<bar>" "\<bar>x\<bar> < pow2 (ilog2 \<bar>x\<bar> + 1)"
    using ilog2_bounds[OF ax] by auto
  have x1: "1 \<le> \<bar>x\<bar>" using False by (simp add: x_def flip: of_int_abs)
  have xle: "\<bar>x\<bar> \<le> pow2 53"
  proof -
    have "(of_int \<bar>i\<bar> :: rat) \<le> of_int (2 ^ 53)" using assms by (simp only: of_int_le_iff)
    then show ?thesis by (simp add: x_def pow2_def)
  qed
  have e0: "0 \<le> ilog2 \<bar>x\<bar>"
  proof (rule ccontr)
    assume "\<not> 0 \<le> ilog2 \<bar>x\<bar>"
    then have "ilog2 \<bar>x\<bar> + 1 \<le> 0" by simp
    then have "pow2 (ilog2 \<bar>x\<bar> + 1) \<le> pow2 0" by (rule pow2_mono)
    then show False using b(2) x1 by (simp add: pow2_def)
  qed
  have e53: "ilog2 \<bar>x\<bar> \<le> 53"
  proof (rule ccontr)
    assume "\<not> ilog2 \<bar>x\<bar> \<le> 53"
    then have "54 \<le> ilog2 \<bar>x\<bar>" by simp
    then have "pow2 54 \<le> pow2 (ilog2 \<bar>x\<bar>)" by (rule pow2_mono)
    then show False using b(1) xle by (simp add: pow2_def)
  qed
  have ee: "e = ilog2 \<bar>x\<bar>" using e0 by (simp add: e_def)
  have "\<exists>k. x / q = of_int k"
  proof (cases "e \<le> 52")
    case True
    then have "q = 1 / 2 ^ nat (52 - e)" 
      by (cases "e = 52") (simp_all add: q_def pow2_def)
    then have "x / q = of_int (i * 2 ^ nat (52 - e))" by (simp add: x_def)
    then show ?thesis by blast
  next
    case False
    then have e: "e = 53" using e53 ee by simp
    then have "pow2 53 \<le> \<bar>x\<bar>" using b(1) ee by simp
    then have "\<bar>x\<bar> = pow2 53" using xle by simp
    then have "x = 2 ^ 53 \<or> x = - (2 ^ 53)" by (auto simp: pow2_def abs_if split: if_splits)
    moreover have "q = 2" using e by (simp add: q_def pow2_def)
    ultimately have "x / q = of_int (2 ^ 52) \<or> x / q = of_int (- (2 ^ 52))" by auto
    then show ?thesis by blast
  qed
  then obtain k where k: "x / q = of_int k" by blast
  have q: "q \<noteq> 0" using pow2_pos[of "e - 52"] by (simp add: q_def)
  have "fl x = of_int k * q" by (simp add: f k round_half_even_of_int)
  also have "\<dots> = x" using k q by (simp add: field_simps)
  finally show ?thesis by (simp add: x_def)
qed

subsection \<open>Facts about normalization and the sign of its result\<close>

lemma bersihkan_normalisasi:
  "bersihkan_nominal s = (case py_float (normalisasi_spec s) of Some x \<Rightarrow> x | None \<Rightarrow> Fin 0)"
proof -
  have "str_replace (CHR '','') (CHR ''.'') (str_remove (CHR ''.'')
          (str_remove (CHR '' '') (str_remove (CHR ''-'') (str_remove (CHR ''+'') s))))
        = normalisasi_spec s"
    by (induction s) (auto simp: str_replace_def str_remove_def normalisasi_spec_def)
  then show ?thesis by (simp add: bersihkan_nominal_def Let_def)
qed

lemma proses_baris_pos: "t \<in> set (proses_baris line) \<Longrightarrow> pf_gt0 (Pengeluaran t)"
  by (auto simp: proses_baris_def Let_def split: if_splits)

lemma extract_pos: "t \<in> set (extract_transaksi_harian_jago pages) \<Longrightarrow> pf_gt0 (Pengeluaran t)"
  by (auto simp: extract_transaksi_harian_jago_def dest: proses_baris_pos split: option.splits if_splits)

lemma pdfs_pos: "t \<in> set (pdfs_to_dataframe folder) \<Longrightarrow> pf_gt0 (Pengeluaran t)"
  by (auto simp: pdfs_to_dataframe_def Let_def split: if_splits)

lemma round_half_even_nonneg: "0 \<le> y \<Longrightarrow> 0 \<le> round_half_even y"
  by (auto simp: round_half_even_def Let_def)

lemma fl_nonneg: "0 \<le> x \<Longrightarrow> 0 \<le> fl x"
proof -
  assume x: "0 \<le> x"
  show ?thesis
  proof (cases "x = 0")
    case True then show ?thesis by (simp add: fl_def)
  next
    case False
    define q where "q = pow2 (max (ilog2 \<bar>x\<bar>) (- 1022) - 52)"
    have q: "0 < q" by (simp add: q_def pow2_pos)
    have "0 \<le> x / q" using x q by simp
    then have "0 \<le> round_half_even (x / q)" by (rule round_half_even_nonneg)
    then have "0 \<le> of_int (round_half_even (x / q)) * q" using q by simp
    then show ?thesis using False by (simp add: fl_def Let_def q_def)
  qed
qed

lemma digit_val_nonneg: "is_digit c \<Longrightarrow> 0 \<le> digit_val c"
  by (auto simp: is_digit_def digit_val_def)

lemma foldl_digits_nonneg:
  "0 \<le> a \<Longrightarrow> list_all is_digit ds \<Longrightarrow> 0 \<le> foldl (\<lambda>a c. 10 * a + digit_val c) a ds"
proof (induction ds arbitrary: a)
  case Nil then show ?case by simp
next
  case (Cons d ds)
  have "0 \<le> 10 * a + digit_val d" using Cons.prems digit_val_nonneg[of d] by simp
  then show ?case using Cons by simp
qed

lemma digits_val_nonneg: "list_all is_digit ds \<Longrightarrow> 0 \<le> digits_val ds"
  by (simp add: digits_val_def foldl_digits_nonneg)

lemma pow10_pos: "0 < pow10 e"
  by (simp add: pow10_def)

lemma mk_float_nonneg: "0 \<le> m \<Longrightarrow> pf_nonneg (mk_float False m e)"
proof -
  assume "0 \<le> m"
  then have "0 \<le> of_int m * pow10 e" using pow10_pos[of e] by simp
  then have "0 \<le> fl (of_int m * pow10 e)" by (rule fl_nonneg)
  then show ?thesis by (simp add: mk_float_def Let_def)
qed

lemma take_sign_no_minus: "CHR ''-'' \<notin> set s \<Longrightarrow> fst (take_sign s) = False"
  by (auto simp: take_sign_def split: list.splits)

lemma takeWhile_all_digits: "list_all is_digit (takeWhile is_digit xs)"
  by (induction xs) auto

lemma parse_decimal_nonneg:
  assumes "CHR ''-'' \<notin> set s" and "parse_decimal s = Some v"
  shows "pf_nonneg v"
proof -
  obtain s1 where ts: "take_sign s = (False, s1)"
    using take_sign_no_minus[OF assms(1)] by (cases "take_sign s") auto
  obtain fp r2 where fr: "(case dropWhile is_digit s1 of
                        c # t \<Rightarrow> if c = CHR ''.'' then (takeWhile is_digit t, dropWhile is_digit t)
                                 else ([], dropWhile is_digit s1)
                      | [] \<Rightarrow> ([], [])) = (fp, r2)"
    by fastforce
  have fd: "list_all is_digit fp"
    using fr by (auto simp: takeWhile_all_digits split: list.splits if_splits)
  have "\<exists>e. v = mk_float False (digits_val (takeWhile is_digit s1 @ fp)) e"
    using assms(2) unfolding parse_decimal_def ts
    by (auto simp: Let_def fr split: option.splits if_splits)
  then obtain e where v: "v = mk_float False (digits_val (takeWhile is_digit s1 @ fp)) e"
    by blast
  have "list_all is_digit (takeWhile is_digit s1 @ fp)"
    using fd takeWhile_all_digits by simp
  then show ?thesis unfolding v by (intro mk_float_nonneg digits_val_nonneg)
qed

lemma parse_inf_nan_cases:
  assumes "CHR ''-'' \<notin> set s" and "parse_inf_nan s = Some v"
  shows "v = PInf \<or> v = NaN"
proof -
  obtain s1 where ts: "take_sign s = (False, s1)"
    using take_sign_no_minus[OF assms(1)] by (cases "take_sign s") auto
  show ?thesis using assms(2) unfolding parse_inf_nan_def ts
    by (auto simp: Let_def split: if_splits)
qed

lemma us_check_set: "us_check p s = Some u \<Longrightarrow> set u \<subseteq> set s"
  by (induction p s arbitrary: u rule: us_check.induct) (auto split: if_splits)

lemma underscores_set: "underscores s = Some u \<Longrightarrow> set u \<subseteq> set s"
  by (auto simp: underscores_def dest: us_check_set split: if_splits)

lemma strip_c_set: "set (strip_c s) \<subseteq> set s"
  unfolding strip_c_def
  by (metis set_dropWhileD set_rev subsetI)

lemma to_ascii_no_minus: "CHR ''-'' \<notin> set s \<Longrightarrow> CHR ''-'' \<notin> set (to_ascii s)"
  by (auto simp: to_ascii_def)

lemma py_float_nonneg:
  assumes "CHR ''-'' \<notin> set s" and "py_float s = Some v"
  shows "pf_nonneg v \<or> v = NaN"
proof -
  define t where "t = strip_c (to_ascii s)"
  have t: "CHR ''-'' \<notin> set t"
    using to_ascii_no_minus[OF assms(1)] strip_c_set[of "to_ascii s"] by (auto simp: t_def)
  from assms(2) obtain u where u: "underscores t = Some u"
    and v: "parse_decimal u = Some v \<or> (parse_decimal u = None \<and> parse_inf_nan u = Some v)"
    by (auto simp: py_float_def Let_def t_def split: if_splits option.splits)
  have um: "CHR ''-'' \<notin> set u" using underscores_set[OF u] t by auto
  from v show ?thesis
  proof
    assume "parse_decimal u = Some v"
    then show ?thesis using parse_decimal_nonneg[OF um] by simp
  next
    assume "parse_decimal u = None \<and> parse_inf_nan u = Some v"
    then show ?thesis using parse_inf_nan_cases[OF um] by auto
  qed
qed

lemma normalisasi_no_minus: "CHR ''-'' \<notin> set (normalisasi_spec s)"
  by (auto simp: normalisasi_spec_def)

lemma bersihkan_nonneg_or_nan:
  "pf_nonneg (bersihkan_nominal s) \<or> bersihkan_nominal s = NaN"
  using py_float_nonneg[OF normalisasi_no_minus, of s]
  by (auto simp: bersihkan_normalisasi split: option.splits)

subsection \<open>Facts about the search for the pattern\<close>

lemma takeWhile_all_kelas: "list_all kelas_angka (takeWhile kelas_angka xs)"
  by (induction xs) auto

lemma kelas_not_space: "kelas_angka c \<Longrightarrow> \<not> unicode_space c"
  by (auto simp: kelas_angka_def unicode_space_def is_digit_def)

lemma takeWhile_Nil_dropWhile: "takeWhile P xs = [] \<Longrightarrow> dropWhile P xs = xs"
  by (metis append_Nil takeWhile_dropWhile_id)

lemma match_at_Some:
  assumes "match_at s = Some (m, rest)"
  shows "s = m @ rest \<and> pola m"
proof -
  from assms obtain r where s: "s = CHR ''-'' # r" and r: "r \<noteq> []"
    by (auto simp: match_at_def split: list.splits if_splits)
  then obtain w t where wt: "r = w # t" by (cases r) auto
  show ?thesis
  proof (cases "unicode_space w \<and> takeWhile kelas_angka t \<noteq> []")
    case True
    then have "m = CHR ''-'' # w # takeWhile kelas_angka t" "rest = dropWhile kelas_angka t"
      using assms by (auto simp: match_at_def s wt)
    then show ?thesis using True
      by (simp add: s wt pola_def takeWhile_all_kelas)
  next
    case False
    then have ne: "takeWhile kelas_angka (w # t) \<noteq> []"
      and m: "m = CHR ''-'' # takeWhile kelas_angka (w # t)"
      and rest: "rest = dropWhile kelas_angka (w # t)"
      using assms by (auto simp: match_at_def s wt split: if_splits)
    from ne have kw: "kelas_angka w" by (auto split: if_splits)
    then have nw: "\<not> unicode_space w" by (rule kelas_not_space)
    have "list_all kelas_angka (takeWhile kelas_angka (w # t))" by (rule takeWhile_all_kelas)
    then have "pola m" using kw nw by (simp add: m pola_def)
    moreover have "s = m @ rest" by (simp add: s wt m rest)
    ultimately show ?thesis by simp
  qed
qed

lemma pola_match_at:
  assumes "pola m"
  shows "match_at (m @ post) \<noteq> None"
proof -
  from assms obtain r where m: "m = CHR ''-'' # r" and r: "r \<noteq> []"
    by (auto simp: pola_def Let_def split: list.splits if_splits)
  then obtain w t where wt: "r = w # t" by (cases r) auto
  show ?thesis
  proof (cases "unicode_space w")
    case True
    then have "t \<noteq> []" "list_all kelas_angka t"
      using assms by (auto simp: pola_def m wt Let_def)
    then have "takeWhile kelas_angka (t @ post) \<noteq> []"
      by (cases t) auto
    then show ?thesis using True by (simp add: match_at_def m wt)
  next
    case False
    then have "list_all kelas_angka (w # t)"
      using assms by (auto simp: pola_def m wt Let_def)
    then have "takeWhile kelas_angka ((w # t) @ post) \<noteq> []" by auto
    then show ?thesis using False by (auto simp: match_at_def m wt)
  qed
qed

lemma re_findall_sound:
  "m \<in> set (re_findall s) \<Longrightarrow> pola m \<and> sublist m s"
proof (induction s rule: re_findall.induct)
  case 1
  then show ?case by simp
next
  case (2 c s)
  show ?case
  proof (cases "match_at (c # s)")
    case None
    then have "m \<in> set (re_findall s)" using "2.prems" by simp
    then have "pola m \<and> sublist m s" using "2.IH"(1)[OF None] by simp
    then show ?thesis by (auto simp: sublist_Cons_right)
  next
    case (Some a)
    obtain m0 rest where a: "a = (m0, rest)" by (cases a)
    have ms: "c # s = m0 @ rest" "pola m0" using match_at_Some Some a by auto
    from "2.prems" Some a have "m = m0 \<or> m \<in> set (re_findall rest)" by simp
    then show ?thesis
    proof
      assume "m = m0"
      then show ?thesis using ms by (metis sublist_appendI append_Nil)
    next
      assume "m \<in> set (re_findall rest)"
      then have "pola m \<and> sublist m rest" by (rule "2.IH"(2)[OF Some a[symmetric]])
      then show ?thesis using ms by (metis sublist_order.order_trans sublist_appendI append_Nil2 sublist_append_leftI)
    qed
  qed
qed

lemma re_findall_complete:
  assumes "pola m"
  shows "re_findall (pre @ m @ post) \<noteq> []"
proof (induction pre)
  case Nil
  obtain c r where "m @ post = c # r" using assms by (cases m) (auto simp: pola_def)
  then show ?case using pola_match_at[OF assms, of post] by (auto split: option.splits)
next
  case (Cons p pre)
  then show ?case by (auto split: option.splits)
qed

lemma re_findall_empty_iff:
  "re_findall s = [] \<longleftrightarrow> \<not> (\<exists>m. pola m \<and> sublist m s)"
proof
  assume e: "re_findall s = []"
  show "\<not> (\<exists>m. pola m \<and> sublist m s)"
  proof
    assume "\<exists>m. pola m \<and> sublist m s"
    then obtain m pre post where "pola m" "s = pre @ m @ post" by (auto simp: sublist_def)
    then show False using re_findall_complete e by blast
  qed
next
  assume n: "\<not> (\<exists>m. pola m \<and> sublist m s)"
  show "re_findall s = []"
  proof (rule ccontr)
    assume "re_findall s \<noteq> []"
    then obtain m where "m \<in> set (re_findall s)" by (cases "re_findall s") auto
    then show False using re_findall_sound n by blast
  qed
qed

lemma takeWhile_run:
  "list_all P t \<Longrightarrow> post = [] \<or> \<not> P (hd post) \<Longrightarrow>
   takeWhile P (t @ post) = t \<and> dropWhile P (t @ post) = post"
  by (induction t) (auto, (cases post; simp)+)

lemma pola_match_at_exact:
  assumes "pola m" and "post = [] \<or> \<not> kelas_angka (hd post)"
  shows "match_at (m @ post) = Some (m, post)"
proof -
  from assms(1) obtain r where m: "m = CHR ''-'' # r" and r: "r \<noteq> []"
    by (auto simp: pola_def Let_def split: list.splits if_splits)
  then obtain w t where wt: "r = w # t" by (cases r) auto
  show ?thesis
  proof (cases "unicode_space w")
    case True
    then have t: "t \<noteq> []" "list_all kelas_angka t"
      using assms(1) by (auto simp: pola_def m wt Let_def)
    have "takeWhile kelas_angka (t @ post) = t \<and> dropWhile kelas_angka (t @ post) = post"
      by (rule takeWhile_run[OF t(2) assms(2)])
    then show ?thesis using True t(1) by (simp add: match_at_def m wt)
  next
    case False
    then have k: "list_all kelas_angka (w # t)"
      using assms(1) by (auto simp: pola_def m wt Let_def)
    have "takeWhile kelas_angka ((w # t) @ post) = w # t \<and>
        dropWhile kelas_angka ((w # t) @ post) = post"
      by (rule takeWhile_run[OF k assms(2)])
    then have "takeWhile kelas_angka (w # t @ post) = w # t"
        "dropWhile kelas_angka (w # t @ post) = post" by simp_all
    then show ?thesis using False by (simp add: match_at_def m wt del: takeWhile.simps dropWhile.simps)
  qed
qed

lemma kelas_not_dash: "kelas_angka c \<Longrightarrow> c \<noteq> CHR ''-''"
  by (auto simp: kelas_angka_def is_digit_def)

lemma space_not_dash: "unicode_space c \<Longrightarrow> c \<noteq> CHR ''-''"
  by (auto simp: unicode_space_def)

lemma pola_tail: "pola (c # t) \<Longrightarrow> c = CHR ''-'' \<and> CHR ''-'' \<notin> set t"
proof -
  assume p: "pola (c # t)"
  then have c: "c = CHR ''-''" by (simp add: pola_def)
  have "x \<noteq> CHR ''-''" if "x \<in> set t" for x
  proof (cases t)
    case Nil
    then show ?thesis using that by simp
  next
    case (Cons w t')
    show ?thesis
    proof (cases "unicode_space w")
      case True
      then have "list_all kelas_angka t'" using p by (simp add: pola_def Cons Let_def)
      then have "\<forall>y\<in>set t'. y \<noteq> CHR ''-''" using kelas_not_dash by (auto simp: list_all_iff)
      then show ?thesis using that True space_not_dash by (auto simp: Cons)
    next
      case False
      then have "list_all kelas_angka (w # t')" using p by (simp add: pola_def Cons Let_def)
      then have "\<forall>y\<in>set (w # t'). y \<noteq> CHR ''-''" using kelas_not_dash by (auto simp: list_all_iff)
      then show ?thesis using that unfolding Cons by blast
    qed
  qed
  then show ?thesis using c by blast
qed

lemma match_at_rest:
  assumes "match_at s = Some (m, rest)"
  shows "rest = [] \<or> \<not> kelas_angka (hd rest)"
proof -
  from assms obtain u where "rest = dropWhile kelas_angka u"
    by (auto simp: match_at_def split: list.splits if_splits)
  then show ?thesis using hd_dropWhile[of kelas_angka u] by auto
qed

lemma re_findall_skip:
  assumes "r \<noteq> []" and "hd r = CHR ''-''"
  shows "\<exists>xs. re_findall (pre @ r) = xs @ re_findall r"
proof (induction "length pre" arbitrary: pre rule: less_induct)
  case less
  show ?case
  proof (cases pre)
    case Nil
    then show ?thesis by simp
  next
    case (Cons c p)
    show ?thesis
    proof (cases "match_at (c # p @ r)")
      case None
      then have "re_findall (pre @ r) = re_findall (p @ r)" by (simp add: Cons)
      moreover have "\<exists>xs. re_findall (p @ r) = xs @ re_findall r"
        by (rule less) (simp add: Cons)
      ultimately show ?thesis by simp
    next
      case (Some a)
      obtain m0 rest where a: "a = (m0, rest)" by (cases a)
      have ms: "(c # p) @ r = m0 @ rest" "pola m0" using match_at_Some[of "c # p @ r" m0 rest] Some a by auto
      have eq: "re_findall (pre @ r) = m0 # re_findall rest" using Some a by (simp add: Cons)
      have m0: "m0 \<noteq> []" using ms(2) by (auto simp: pola_def)
      from ms(1)[unfolded append_eq_append_conv2]
      obtain us where us: "(c # p = m0 @ us \<and> us @ r = rest) \<or> ((c # p) @ us = m0 \<and> r = us @ rest)"
        by blast
      then show ?thesis
      proof
        assume A: "c # p = m0 @ us \<and> us @ r = rest"
        then have "length (c # p) = length m0 + length us" by (metis length_append)
        then have "length us < length pre" using m0 by (simp add: Cons)
        then obtain xs where "re_findall (us @ r) = xs @ re_findall r" using less by blast
        then have "re_findall (pre @ r) = (m0 # xs) @ re_findall r" using eq A by simp
        then show ?thesis by blast
      next
        assume B: "(c # p) @ us = m0 \<and> r = us @ rest"
        show ?thesis
        proof (cases us)
          case Nil
          then have "re_findall (pre @ r) = [m0] @ re_findall r" using eq B by simp
          then show ?thesis by blast
        next
          case (Cons u us')
          then have "u = CHR ''-''" using B assms(2) by simp
          then have "CHR ''-'' \<in> set (p @ us)" by (simp add: Cons)
          moreover have "pola (c # (p @ us))" using ms(2) B by simp
          ultimately show ?thesis using pola_tail by blast
        qed
      qed
    qed
  qed
qed

lemma re_findall_last_unique:
  assumes "pola m" and "post = [] \<or> \<not> kelas_angka (hd post)" and "re_findall post = []"
  shows "re_findall (pre @ m @ post) \<noteq> [] \<and> last (re_findall (pre @ m @ post)) = m"
proof -
  obtain c t where m: "m = c # t" using assms(1) by (cases m) (auto simp: pola_def)
  have c: "c = CHR ''-''" using assms(1) pola_tail unfolding m by blast
  have "match_at (c # (t @ post)) = Some (m, post)"
    using pola_match_at_exact[OF assms(1,2)] by (simp add: m)
  then have "re_findall (c # (t @ post)) = m # re_findall post" by simp
  then have one: "re_findall (m @ post) = [m]" using assms(3) by (simp add: m)
  have "m @ post \<noteq> []" "hd (m @ post) = CHR ''-''" using m c by simp_all
  from re_findall_skip[OF this, of pre] obtain xs
    where "re_findall (pre @ m @ post) = xs @ [m]" using one by auto
  then show ?thesis by simp
qed

lemma re_findall_maximal:
  "m \<in> set (re_findall s) \<Longrightarrow>
   \<exists>pre post. s = pre @ m @ post \<and> (post = [] \<or> \<not> kelas_angka (hd post))"
proof (induction s rule: re_findall.induct)
  case 1
  then show ?case by simp
next
  case (2 c s)
  show ?case
  proof (cases "match_at (c # s)")
    case None
    then have "m \<in> set (re_findall s)" using "2.prems" by simp
    then obtain pre post where "s = pre @ m @ post" "post = [] \<or> \<not> kelas_angka (hd post)"
      using "2.IH"(1)[OF None] by blast
    then have "c # s = (c # pre) @ m @ post \<and> (post = [] \<or> \<not> kelas_angka (hd post))" by simp
    then show ?thesis by blast
  next
    case (Some a)
    obtain m0 rest where a: "a = (m0, rest)" by (cases a)
    have ms: "c # s = m0 @ rest" using match_at_Some Some a by auto
    have mr: "rest = [] \<or> \<not> kelas_angka (hd rest)" using match_at_rest Some a by auto
    from "2.prems" Some a have "m = m0 \<or> m \<in> set (re_findall rest)" by simp
    then show ?thesis
    proof
      assume "m = m0"
      then have "c # s = [] @ m @ rest \<and> (rest = [] \<or> \<not> kelas_angka (hd rest))"
        using ms mr by simp
      then show ?thesis by blast
    next
      assume "m \<in> set (re_findall rest)"
      then obtain pre post where "rest = pre @ m @ post" "post = [] \<or> \<not> kelas_angka (hd post)"
        using "2.IH"(2)[OF Some a[symmetric]] by blast
      then have "c # s = (m0 @ pre) @ m @ post \<and> (post = [] \<or> \<not> kelas_angka (hd post))"
        using ms by simp
      then show ?thesis by blast
    qed
  qed
qed

lemma re_findall_last_maximal:
  "re_findall s \<noteq> [] \<Longrightarrow>
   \<exists>pre post. s = pre @ last (re_findall s) @ post \<and>
              (post = [] \<or> \<not> kelas_angka (hd post)) \<and> re_findall post = []"
proof (induction s rule: re_findall.induct)
  case 1
  then show ?case by simp
next
  case (2 c s)
  show ?case
  proof (cases "match_at (c # s)")
    case None
    then have ne: "re_findall s \<noteq> []" and eq: "re_findall (c # s) = re_findall s"
      using "2.prems" by simp_all
    from "2.IH"(1)[OF None ne] obtain pre post
      where "s = pre @ last (re_findall s) @ post" "post = [] \<or> \<not> kelas_angka (hd post)"
        "re_findall post = []" by blast
    then have "c # s = (c # pre) @ last (re_findall (c # s)) @ post \<and>
        (post = [] \<or> \<not> kelas_angka (hd post)) \<and> re_findall post = []"
      using eq by simp
    then show ?thesis by blast
  next
    case (Some a)
    obtain m0 rest where a: "a = (m0, rest)" by (cases a)
    have ms: "c # s = m0 @ rest" using match_at_Some Some a by auto
    have mr: "rest = [] \<or> \<not> kelas_angka (hd rest)" using match_at_rest Some a by auto
    have eq: "re_findall (c # s) = m0 # re_findall rest" using Some a by simp
    show ?thesis
    proof (cases "re_findall rest = []")
      case True
      then have "c # s = [] @ last (re_findall (c # s)) @ rest \<and>
          (rest = [] \<or> \<not> kelas_angka (hd rest)) \<and> re_findall rest = []"
        using eq ms mr by simp
      then show ?thesis by blast
    next
      case False
      from "2.IH"(2)[OF Some a[symmetric] False] obtain pre post
        where "rest = pre @ last (re_findall rest) @ post" "post = [] \<or> \<not> kelas_angka (hd post)"
          "re_findall post = []" by blast
      then have "c # s = (m0 @ pre) @ last (re_findall (c # s)) @ post \<and>
          (post = [] \<or> \<not> kelas_angka (hd post)) \<and> re_findall post = []"
        using eq ms False by simp
      then show ?thesis by blast
    qed
  qed
qed

lemma ascii_lower_n: "ascii_lower c = CHR ''n'' \<Longrightarrow> c = CHR ''n'' \<or> c = CHR ''N''"
proof -
  assume a: "ascii_lower c = CHR ''n''"
  show ?thesis
  proof (cases "65 \<le> (of_char c :: int) \<and> (of_char c :: int) \<le> 90")
    case False
    then show ?thesis using a by (auto simp: ascii_lower_def Let_def)
  next
    case True
    then have "char_of (of_char c + 32 :: int) = CHR ''n''" using a by (simp add: ascii_lower_def Let_def)
    then have "(of_char (char_of (of_char c + 32 :: int)) :: int) = of_char (CHR ''n'')" by simp
    then have "(of_char c + 32 :: int) mod 256 = 110" by simp
    then have "(of_char c :: int) = 78" using True by simp
    then have "(of_char c :: int) = of_char (CHR ''N'')" by simp
    then have "c = CHR ''N''" by (simp only: of_char_eq_iff)
    then show ?thesis by simp
  qed
qed

lemma parse_decimal_not_NaN: "parse_decimal s \<noteq> Some NaN"
  by (auto simp: parse_decimal_def mk_float_def Let_def split: prod.splits option.splits if_splits)

lemma take_sign_set: "set (snd (take_sign s)) \<subseteq> set s"
  by (auto simp: take_sign_def split: list.splits if_splits)

lemma parse_inf_nan_NaN:
  assumes "parse_inf_nan s = Some NaN"
  shows "CHR ''n'' \<in> set s \<or> CHR ''N'' \<in> set s"
proof -
  from assms have "map ascii_lower (snd (take_sign s)) = ''nan''"
    by (auto simp: parse_inf_nan_def Let_def split: prod.splits if_splits)
  then obtain c where "c \<in> set (snd (take_sign s))" "ascii_lower c = CHR ''n''"
    by (cases "snd (take_sign s)") auto
  then show ?thesis using ascii_lower_n take_sign_set by blast
qed

lemma to_ascii_set: "c \<in> set (to_ascii s) \<Longrightarrow> c \<in> set s \<or> c = CHR '' '' \<or> c = CHR ''?''"
  by (auto simp: to_ascii_def split: if_splits)

lemma py_float_NaN:
  assumes "py_float s = Some NaN"
  shows "CHR ''n'' \<in> set s \<or> CHR ''N'' \<in> set s"
proof -
  define t where "t = strip_c (to_ascii s)"
  from assms obtain u where u: "underscores t = Some u" and v: "parse_inf_nan u = Some NaN"
    using parse_decimal_not_NaN
    by (auto simp: py_float_def Let_def t_def split: if_splits option.splits)
  have "set u \<subseteq> set (to_ascii s)"
    using underscores_set[OF u] strip_c_set[of "to_ascii s"] by (auto simp: t_def)
  then have "CHR ''n'' \<in> set (to_ascii s) \<or> CHR ''N'' \<in> set (to_ascii s)"
    using parse_inf_nan_NaN[OF v] by auto
  then show ?thesis using to_ascii_set by fastforce
qed

lemma pola_chars:
  assumes "pola m" and "c \<in> set m"
  shows "c = CHR ''-'' \<or> unicode_space c \<or> kelas_angka c"
  using assms
  by (auto simp: pola_def Let_def list_all_iff split: list.splits if_splits)

lemma token_not_NaN:
  assumes "pola m"
  shows "bersihkan_nominal m \<noteq> NaN"
proof
  assume "bersihkan_nominal m = NaN"
  then have "py_float (normalisasi_spec m) = Some NaN"
    by (auto simp: bersihkan_normalisasi split: option.splits)
  then have "CHR ''n'' \<in> set (normalisasi_spec m) \<or> CHR ''N'' \<in> set (normalisasi_spec m)"
    by (rule py_float_NaN)
  then have "CHR ''n'' \<in> set m \<or> CHR ''N'' \<in> set m"
    by (auto simp: normalisasi_spec_def split: if_splits)
  then show False using pola_chars[OF assms]
    by (auto simp: unicode_space_def kelas_angka_def is_digit_def)
qed

lemma token_nonneg:
  "m \<in> set (re_findall line) \<Longrightarrow> pf_nonneg (bersihkan_nominal m)"
  using re_findall_sound[of m line] token_not_NaN[of m] bersihkan_nonneg_or_nan[of m] by auto

subsection \<open>The amounts of the transaction set\<close>

text \<open>
  C8: every row produced by the parser, for a line, for a document, and every row of
  the aggregated set has an amount greater than zero: the parser appends a row only
  when the normalized value is positive, and the aggregator keeps the positive rows.
\<close>

theorem pengeluaran_positif:
  "(\<forall>t\<in>set (proses_baris line). pf_gt0 (Pengeluaran t)) \<and>
   (\<forall>t\<in>set (extract_transaksi_harian_jago pages). pf_gt0 (Pengeluaran t)) \<and>
   (\<forall>t\<in>set (pdfs_to_dataframe folder_pdf). pf_gt0 (Pengeluaran t))"
  using proses_baris_pos extract_pos pdfs_pos by blast

theorem pengeluaran_positif_witness:
  "proses_baris ''Kopi -21.500'' = [\<lparr>Deskripsi = ''Kopi -21.500'', Pengeluaran = Fin 21500\<rparr>] \<and>
   extract_transaksi_harian_jago
     [Some ''Sampul -1'', None, Some (''Kopi -21.500'' @ [CHR 0x0A] @ ''Saldo -0'')] =
     [\<lparr>Deskripsi = ''Kopi -21.500'', Pengeluaran = Fin 21500\<rparr>] \<and>
   pdfs_to_dataframe
     [(''okt.PDF'', [Some ''Sampul -1'', None, Some (''Kopi -21.500'' @ [CHR 0x0A] @ ''Saldo -0'')]),
      (''catatan.txt'', [None, None, Some ''Sewa -9.000'']),
      (''nov.pdf'', [None, None, Some ''Makan - 15.000,50''])] =
     [\<lparr>Deskripsi = ''Kopi -21.500'', Pengeluaran = Fin 21500\<rparr>,
      \<lparr>Deskripsi = ''Makan - 15.000,50'', Pengeluaran = Fin (30001 / 2)\<rparr>] \<and>
   pf_gt0 (Pengeluaran \<lparr>Deskripsi = ''Kopi -21.500'', Pengeluaran = Fin 21500\<rparr>) \<and>
   pf_gt0 (Pengeluaran \<lparr>Deskripsi = ''Makan - 15.000,50'', Pengeluaran = Fin (30001 / 2)\<rparr>)"
proof -
  have e1: "proses_baris ''Kopi -21.500'' = [\<lparr>Deskripsi = ''Kopi -21.500'', Pengeluaran = Fin 21500\<rparr>]"
    by code_simp
  have e2: "extract_transaksi_harian_jago
     [Some ''Sampul -1'', None, Some (''Kopi -21.500'' @ [CHR 0x0A] @ ''Saldo -0'')] =
     [\<lparr>Deskripsi = ''Kopi -21.500'', Pengeluaran = Fin 21500\<rparr>]"
    by code_simp
  have e3: "pdfs_to_dataframe
     [(''okt.PDF'', [Some ''Sampul -1'', None, Some (''Kopi -21.500'' @ [CHR 0x0A] @ ''Saldo -0'')]),
      (''catatan.txt'', [None, None, Some ''Sewa -9.000'']),
      (''nov.pdf'', [None, None, Some ''Makan - 15.000,50''])] =
     [\<lparr>Deskripsi = ''Kopi -21.500'', Pengeluaran = Fin 21500\<rparr>,
      \<lparr>Deskripsi = ''Makan - 15.000,50'', Pengeluaran = Fin (30001 / 2)\<rparr>]"
    by code_simp
  show ?thesis
    using e1 e2 e3
      pengeluaran_positif [of "''Kopi -21.500''"
        "[Some ''Sampul -1'', None, Some (''Kopi -21.500'' @ [CHR 0x0A] @ ''Saldo -0'')]"
        "[(''okt.PDF'', [Some ''Sampul -1'', None, Some (''Kopi -21.500'' @ [CHR 0x0A] @ ''Saldo -0'')]),
          (''catatan.txt'', [None, None, Some ''Sewa -9.000'']),
          (''nov.pdf'', [None, None, Some ''Makan - 15.000,50''])]"]
    by simp
qed

subsection \<open>Normalization of a matched numeral\<close>

text \<open>
  C6: for every text, \<open>bersihkan_nominal\<close> drops the characters \<open>+\<close>, \<open>-\<close> and blank,
  drops every point, turns every comma into a point and reads the result as a number,
  the result being 0.0 when it cannot be read; \<open>"-21.500"\<close> gives 21500.0 and
  \<open>"1.250.000,00"\<close> gives 1250000.0; and when the last match of a line cannot be read,
  the parser appends no row for the line.
\<close>

theorem bersihkan_nominal_normalisasi:
  "bersihkan_nominal s = (case py_float (normalisasi_spec s) of Some x \<Rightarrow> x | None \<Rightarrow> Fin 0) \<and>
   bersihkan_nominal ''-21.500'' = Fin 21500 \<and>
   bersihkan_nominal ''1.250.000,00'' = Fin 1250000 \<and>
   (re_findall line \<noteq> [] \<and> py_float (normalisasi_spec (last (re_findall line))) = None \<longrightarrow>
      bersihkan_nominal (last (re_findall line)) = Fin 0 \<and> proses_baris line = [])"
proof -
  have a: "bersihkan_nominal ''-21.500'' = Fin 21500" by code_simp
  have b: "bersihkan_nominal ''1.250.000,00'' = Fin 1250000" by code_simp
  have c: "py_float (normalisasi_spec (last (re_findall line))) = None \<Longrightarrow>
      bersihkan_nominal (last (re_findall line)) = Fin 0 \<and> proses_baris line = []"
    by (simp add: bersihkan_normalisasi proses_baris_def Let_def)
  show ?thesis using a b c bersihkan_normalisasi by blast
qed

theorem bersihkan_nominal_normalisasi_witness:
  "normalisasi_spec ''+ 1.250.000,75'' = ''1250000.75'' \<and>
   bersihkan_nominal ''+ 1.250.000,75'' = Fin (5000003 / 4) \<and>
   re_findall ''Saldo -3.000 -1,000,000'' = [''-3.000'', ''-1,000,000''] \<and>
   normalisasi_spec ''-1,000,000'' = ''1.000.000'' \<and>
   py_float ''1.000.000'' = None \<and>
   bersihkan_nominal ''-1,000,000'' = Fin 0 \<and>
   proses_baris ''Saldo -3.000 -1,000,000'' = []"
proof -
  have e1: "normalisasi_spec ''+ 1.250.000,75'' = ''1250000.75''" by code_simp
  have e2: "py_float ''1250000.75'' = Some (Fin (5000003 / 4))" by code_simp
  have e3: "re_findall ''Saldo -3.000 -1,000,000'' = [''-3.000'', ''-1,000,000'']" by code_simp
  have e4: "normalisasi_spec ''-1,000,000'' = ''1.000.000''" by code_simp
  have e5: "py_float ''1.000.000'' = None" by code_simp
  show ?thesis
    using e1 e2 e3 e4 e5
      bersihkan_nominal_normalisasi [of "''+ 1.250.000,75''" "''Saldo -3.000 -1,000,000''"]
    by simp
qed

subsection \<open>The sign of a normalized value\<close>

text \<open>
  C10 as stated fails: \<open>bersihkan_nominal\<close> returns NaN for the text \<open>nan\<close>, and NaN is not
  a non-negative number.
\<close>

theorem bersihkan_nominal_nan_counterexample:
  "bersihkan_nominal ''nan'' = NaN \<and> \<not> pf_nonneg (bersihkan_nominal ''nan'')"
  by code_simp

text \<open>
  C10, amended: \<open>bersihkan_nominal\<close> returns a value for every text (a text that cannot
  be read gives 0.0) and the value is never negative: it is a non-negative number
  (finite or infinite) or NaN, NaN only for a text that contains the letter n; for
  every match of the pattern of the parser it is a non-negative number, so that the
  amount of a row needs no absolute value.
\<close>

theorem bersihkan_nominal_tak_negatif:
  "(pf_nonneg (bersihkan_nominal s) \<or> bersihkan_nominal s = NaN) \<and>
   (bersihkan_nominal s = NaN \<longrightarrow> CHR ''n'' \<in> set s \<or> CHR ''N'' \<in> set s) \<and>
   (\<forall>m\<in>set (re_findall line). pf_nonneg (bersihkan_nominal m))"
proof -
  have "CHR ''n'' \<in> set s \<or> CHR ''N'' \<in> set s" if "bersihkan_nominal s = NaN"
  proof -
    from that have "py_float (normalisasi_spec s) = Some NaN"
      by (auto simp: bersihkan_normalisasi split: option.splits)
    then have "CHR ''n'' \<in> set (normalisasi_spec s) \<or> CHR ''N'' \<in> set (normalisasi_spec s)"
      by (rule py_float_NaN)
    then show ?thesis by (auto simp: normalisasi_spec_def split: if_splits)
  qed
  then show ?thesis using bersihkan_nonneg_or_nan token_nonneg by blast
qed

theorem bersihkan_nominal_tak_negatif_witness:
  "bersihkan_nominal ''NaN'' = NaN \<and> CHR ''N'' \<in> set ''NaN'' \<and>
   re_findall ''Kopi -3.000 - 21.500'' = [''-3.000'', ''- 21.500''] \<and>
   bersihkan_nominal ''- 21.500'' = Fin 21500 \<and>
   pf_nonneg (bersihkan_nominal ''-3.000'') \<and> pf_nonneg (bersihkan_nominal ''- 21.500'')"
proof -
  have e1: "bersihkan_nominal ''NaN'' = NaN" by code_simp
  have e2: "re_findall ''Kopi -3.000 - 21.500'' = [''-3.000'', ''- 21.500'']" by code_simp
  have e3: "bersihkan_nominal ''- 21.500'' = Fin 21500" by code_simp
  show ?thesis
    using e1 e2 e3
      bersihkan_nominal_tak_negatif [of "''NaN''" "''Kopi -3.000 - 21.500''"]
    by simp
qed

subsection \<open>The pattern of the parser\<close>

text \<open>
  C4 as stated fails: with an optional dash the numeral of a line without a dash would
  be a match, and the last match of a line could be a numeral without a dash; the
  source finds no match in \<open>5000\<close> and takes \<open>-1.000\<close> in \<open>-1.000 2.500\<close>.
\<close>

theorem proses_baris_counterexample:
  "proses_baris_spec ''5000'' = [\<lparr>Deskripsi = ''5000'', Pengeluaran = Fin 5000\<rparr>] \<and>
   proses_baris ''5000'' = [] \<and>
   proses_baris_spec ''-1.000 2.500'' = [\<lparr>Deskripsi = ''-1.000 2.500'', Pengeluaran = Fin 2500\<rparr>] \<and>
   proses_baris ''-1.000 2.500'' = [\<lparr>Deskripsi = ''-1.000 2.500'', Pengeluaran = Fin 1000\<rparr>]"
  by code_simp

text \<open>
  C4, amended: the pattern is a dash, at most one white space character, and one or
  more digits and separators, the dash being required, and a match takes the longest
  run of digits and separators: the character after it, if any, is not a digit or a
  separator. For every line, every match found is such a text at a place of the line
  where it ends the run; none is found exactly when the line contains no text of the
  pattern; the last match found is the one text of the pattern in the line that ends its
  run and has no text of the pattern after it; the line gives at most one row, and it
  gives one, with the trimmed line as description and the normalized last match as
  amount, exactly when there is a match and that value is positive.
\<close>

theorem proses_baris_pola:
  "(\<forall>m\<in>set (re_findall line).
      pola m \<and> (\<exists>pre post. line = pre @ m @ post \<and> (post = [] \<or> \<not> kelas_angka (hd post)))) \<and>
   (re_findall line = [] \<longleftrightarrow> \<not> (\<exists>m. pola m \<and> sublist m line)) \<and>
   (re_findall line \<noteq> [] \<longrightarrow>
      pola (last (re_findall line)) \<and>
      (\<exists>pre post. line = pre @ last (re_findall line) @ post \<and>
                  (post = [] \<or> \<not> kelas_angka (hd post)) \<and>
                  \<not> (\<exists>m. pola m \<and> sublist m post))) \<and>
   (\<forall>pre m post.
      line = pre @ m @ post \<and> pola m \<and> (post = [] \<or> \<not> kelas_angka (hd post)) \<and>
      \<not> (\<exists>m'. pola m' \<and> sublist m' post) \<longrightarrow>
      re_findall line \<noteq> [] \<and> last (re_findall line) = m) \<and>
   proses_baris line =
     (if re_findall line \<noteq> [] \<and> pf_gt0 (bersihkan_nominal (last (re_findall line)))
      then [\<lparr>Deskripsi = strip line, Pengeluaran = bersihkan_nominal (last (re_findall line))\<rparr>]
      else []) \<and>
   length (proses_baris line) \<le> 1"
proof -
  have a: "\<forall>m\<in>set (re_findall line).
      pola m \<and> (\<exists>pre post. line = pre @ m @ post \<and> (post = [] \<or> \<not> kelas_angka (hd post)))"
    using re_findall_sound re_findall_maximal by blast
  have b: "re_findall line = [] \<longleftrightarrow> \<not> (\<exists>m. pola m \<and> sublist m line)"
    by (rule re_findall_empty_iff)
  have c: "pola (last (re_findall line)) \<and>
      (\<exists>pre post. line = pre @ last (re_findall line) @ post \<and>
                  (post = [] \<or> \<not> kelas_angka (hd post)) \<and>
                  \<not> (\<exists>m. pola m \<and> sublist m post))" if "re_findall line \<noteq> []"
  proof -
    have "last (re_findall line) \<in> set (re_findall line)" using that by simp
    then have "pola (last (re_findall line))" using re_findall_sound by blast
    then show ?thesis using re_findall_last_maximal[OF that] re_findall_empty_iff by blast
  qed
  have f: "\<forall>pre m post.
      line = pre @ m @ post \<and> pola m \<and> (post = [] \<or> \<not> kelas_angka (hd post)) \<and>
      \<not> (\<exists>m'. pola m' \<and> sublist m' post) \<longrightarrow>
      re_findall line \<noteq> [] \<and> last (re_findall line) = m"
  proof (intro allI impI)
    fix pre m post
    assume h: "line = pre @ m @ post \<and> pola m \<and> (post = [] \<or> \<not> kelas_angka (hd post)) \<and>
      \<not> (\<exists>m'. pola m' \<and> sublist m' post)"
    then have "re_findall post = []" using re_findall_empty_iff by blast
    then show "re_findall line \<noteq> [] \<and> last (re_findall line) = m"
      using h re_findall_last_unique[of m post pre] by blast
  qed
  have d: "proses_baris line =
     (if re_findall line \<noteq> [] \<and> pf_gt0 (bersihkan_nominal (last (re_findall line)))
      then [\<lparr>Deskripsi = strip line, Pengeluaran = bersihkan_nominal (last (re_findall line))\<rparr>]
      else [])"
    by (simp add: proses_baris_def Let_def)
  have e: "length (proses_baris line) \<le> 1"
    by (simp add: d)
  show ?thesis using a b c f d e by blast
qed

theorem proses_baris_pola_witness:
  "re_findall ''  Kopi -3.000 - 21.500 ok '' = [''-3.000'', ''- 21.500''] \<and>
   ''  Kopi -3.000 - 21.500 ok '' = ''  Kopi -3.000 '' @ ''- 21.500'' @ '' ok '' \<and>
   pola ''- 21.500'' \<and> \<not> kelas_angka (hd '' ok '') \<and>
   \<not> (\<exists>m. pola m \<and> sublist m '' ok '') \<and>
   last (re_findall ''  Kopi -3.000 - 21.500 ok '') = ''- 21.500'' \<and>
   proses_baris ''  Kopi -3.000 - 21.500 ok '' =
     [\<lparr>Deskripsi = ''Kopi -3.000 - 21.500 ok'', Pengeluaran = Fin 21500\<rparr>] \<and>
   re_findall ''Gaji 5.000'' = [] \<and> \<not> (\<exists>m. pola m \<and> sublist m ''Gaji 5.000'') \<and>
   proses_baris ''Gaji 5.000'' = []"
proof -
  have e1: "re_findall ''  Kopi -3.000 - 21.500 ok '' = [''-3.000'', ''- 21.500'']" by code_simp
  have e2: "bersihkan_nominal ''- 21.500'' = Fin 21500" by code_simp
  have e3: "strip ''  Kopi -3.000 - 21.500 ok '' = ''Kopi -3.000 - 21.500 ok''" by code_simp
  have e4: "re_findall ''Gaji 5.000'' = []" by code_simp
  have e5: "re_findall '' ok '' = []" by code_simp
  have e6: "''  Kopi -3.000 - 21.500 ok '' = ''  Kopi -3.000 '' @ ''- 21.500'' @ '' ok ''" by simp
  have e7: "pola ''- 21.500''" by code_simp
  have e8: "\<not> kelas_angka (hd '' ok '')" by code_simp
  have n1: "\<not> (\<exists>m. pola m \<and> sublist m '' ok '')"
    using proses_baris_pola [of "'' ok ''"] e5 by blast
  have n2: "\<not> (\<exists>m. pola m \<and> sublist m ''Gaji 5.000'')"
    using proses_baris_pola [of "''Gaji 5.000''"] e4 by blast
  have l: "last (re_findall ''  Kopi -3.000 - 21.500 ok '') = ''- 21.500''"
    using proses_baris_pola [of "''  Kopi -3.000 - 21.500 ok ''"] e6 e7 e8 n1 by blast
  have p1: "proses_baris ''  Kopi -3.000 - 21.500 ok '' =
     [\<lparr>Deskripsi = ''Kopi -3.000 - 21.500 ok'', Pengeluaran = Fin 21500\<rparr>]"
    by code_simp
  have p2: "proses_baris ''Gaji 5.000'' = []" by code_simp
  show ?thesis using e1 e6 e7 e8 n1 l p1 e4 n2 p2 by blast
qed

subsection \<open>Facts about float arithmetic, sorting and the quantile\<close>

lemma fl_zero: "fl 0 = 0"
  by (simp add: fl_def)

lemma fl_one: "fl 1 = 1"
  using fl_of_int[of 1] by simp

lemma overflows_small: "\<bar>r\<bar> \<le> 2 ^ 53 \<Longrightarrow> \<not> overflows \<bar>r\<bar>"
proof
  assume a: "\<bar>r\<bar> \<le> 2 ^ 53" and o: "overflows \<bar>r\<bar>"
  then have p: "0 < \<bar>r\<bar>" and e: "1024 \<le> ilog2 \<bar>r\<bar>" by (auto simp: overflows_def)
  have "pow2 54 \<le> pow2 (ilog2 \<bar>r\<bar>)" using e by (intro pow2_mono) simp
  also have "\<dots> \<le> \<bar>r\<bar>" using ilog2_bounds[OF p] by simp
  finally show False using a by (simp add: pow2_def)
qed

lemma bulat_zero: "bulat 0 = Fin 0"
  by (simp add: bulat_def fl_zero overflows_def)

lemma fl_rel_error:
  assumes "1 / 8 \<le> x"
  shows "\<bar>fl x - x\<bar> \<le> x / 2 ^ 53"
proof -
  have x0: "0 < x" "x \<noteq> 0" "\<bar>x\<bar> = x" using assms by simp_all
  have b: "pow2 (ilog2 x) \<le> x" "x < pow2 (ilog2 x + 1)" using ilog2_bounds[OF x0(1)] by auto
  have e0: "- 3 \<le> ilog2 x"
  proof (rule ccontr)
    assume "\<not> - 3 \<le> ilog2 x"
    then have "ilog2 x + 1 \<le> - 3" by simp
    then have "pow2 (ilog2 x + 1) \<le> pow2 (- 3)" by (rule pow2_mono)
    then show False using b(2) assms by (simp add: pow2_def)
  qed
  have "\<bar>fl x - x\<bar> \<le> pow2 (max (ilog2 \<bar>x\<bar>) (- 1022) - 53)" by (rule fl_error[OF x0(2)])
  also have "\<dots> = pow2 (ilog2 x - 53)" using e0 x0(3) by (simp add: max_def)
  also have "\<dots> = pow2 (ilog2 x) * pow2 (- 53)" by (simp add: pow2_add[symmetric])
  also have "\<dots> = pow2 (ilog2 x) / 2 ^ 53" by (simp add: pow2_def)
  also have "\<dots> \<le> x / 2 ^ 53" using b(1) by (simp add: divide_right_mono)
  finally show ?thesis .
qed

lemma length_np_insert: "length (np_insert x ys) = Suc (length ys)"
  by (induction ys) auto

lemma length_np_sort: "length (np_sort xs) = length xs"
  by (induction xs) (auto simp: np_sort_def length_np_insert)

lemma set_np_insert: "set (np_insert x ys) = insert x (set ys)"
  by (induction ys) auto

lemma set_np_sort: "set (np_sort xs) = set xs"
  by (induction xs) (auto simp: np_sort_def set_np_insert)

lemma count_np_insert: "count_list (np_insert x ys) y = count_list (x # ys) y"
  by (induction ys) auto

lemma count_np_sort: "count_list (np_sort xs) y = count_list xs y"
  by (induction xs) (auto simp: np_sort_def count_np_insert)

lemma pf_le_total: "a \<noteq> NaN \<Longrightarrow> b \<noteq> NaN \<Longrightarrow> \<not> pf_le a b \<Longrightarrow> pf_le b a"
  by (cases a; cases b) auto

lemma pf_le_trans: "pf_le a b \<Longrightarrow> pf_le b c \<Longrightarrow> pf_le a c"
  by (cases a; cases b; cases c) auto

lemma sorted_np_insert:
  assumes "x \<noteq> NaN" and "NaN \<notin> set ys" and "sorted_wrt pf_le ys"
  shows "sorted_wrt pf_le (np_insert x ys)"
  using assms
proof (induction ys)
  case Nil
  then show ?case by simp
next
  case (Cons y ys)
  show ?case
  proof (cases "pf_le x y")
    case True
    then have "\<forall>z\<in>set ys. pf_le x z" using Cons.prems(3) pf_le_trans by auto
    then show ?thesis using True Cons.prems(3) by simp
  next
    case False
    then have yx: "pf_le y x" using Cons.prems(1,2) pf_le_total by auto
    have "sorted_wrt pf_le (np_insert x ys)" using Cons by simp
    moreover have "\<forall>z\<in>set (np_insert x ys). pf_le y z"
      using yx Cons.prems(3) by (auto simp: set_np_insert)
    ultimately show ?thesis using False by simp
  qed
qed

lemma sorted_np_sort: "NaN \<notin> set xs \<Longrightarrow> sorted_wrt pf_le (np_sort xs)"
proof (induction xs)
  case Nil
  then show ?case by (simp add: np_sort_def)
next
  case (Cons x xs)
  have "np_sort (x # xs) = np_insert x (np_sort xs)" by (simp add: np_sort_def)
  moreover have "x \<noteq> NaN" "NaN \<notin> set (np_sort xs)" "sorted_wrt pf_le (np_sort xs)"
    using Cons by (auto simp: set_np_sort)
  ultimately show ?case using sorted_np_insert[of x "np_sort xs"] by simp
qed

lemma boolean_index_filter: "boolean_index rows (map P rows) = filter P rows"
  by (induction rows) (auto simp: boolean_index_def)

lemma lerp_same_zero:
  "pf_sub a (pf_mul (pf_sub a a) (Fin 0)) = pf_add a (pf_mul (pf_sub a a) (Fin 0))"
  by (cases a) (simp_all add: pf_sub_def bulat_zero)

lemma quantile_persentil64:
  assumes q1: "fl (fl (q * 100) / 100) = q" and q2: "1 / 8 \<le> q" and q3: "q \<le> 7 / 8"
  shows "quantile xs q = persentil64 xs q"
proof (cases "filter (\<lambda>v. v \<noteq> NaN) xs = []")
  case True
  then show ?thesis by (simp add: quantile_def persentil64_def np_sort_def)
next
  case False
  define vals where "vals = filter (\<lambda>v. v \<noteq> NaN) xs"
  define arr where "arr = np_sort vals"
  define n where "n = length arr"
  have ne: "vals \<noteq> []" using False by (simp add: vals_def)
  have n0: "0 < n" using ne by (simp add: n_def arr_def length_np_sort)
  define h where "h = fl (of_int (int n - 1) * q)"
  have cnt: "(of_int (int n - 1) :: rat) = of_nat (n - 1)" using n0 by (simp add: of_nat_diff)
  have Q: "quantile xs q =
     (let above = (of_int (int n - 1) \<le> h);
          below = (h < 0);
          previous_index = (if above then - 1 else if below then 0 else \<lfloor>h\<rfloor>);
          next_index = (if above then - 1 else if below then 0 else \<lfloor>h\<rfloor> + 1);
          previous = arr ! nat (if previous_index < 0 then int n + previous_index else previous_index);
          next = arr ! nat (if next_index < 0 then int n + next_index else next_index);
          gamma = fl (h - of_int previous_index)
      in np_lerp previous next gamma)"
    using False by (simp only: quantile_def Let_def vals_def arr_def n_def h_def q1 if_False)
  have P: "persentil64 xs q =
     (let i = nat \<lfloor>h\<rfloor>; g = fl (h - of_int \<lfloor>h\<rfloor>);
          lo = arr ! i; hi = arr ! min (i + 1) (n - 1); d = pf_sub hi lo
      in if g < 1 / 2 then pf_add lo (pf_mul d (Fin g))
         else pf_sub hi (pf_mul d (Fin (fl (1 - g)))))"
  proof -
    have "persentil64 xs q =
       (if n = 0 then NaN
        else (let h = fl (of_nat (n - 1) * q); i = nat \<lfloor>h\<rfloor>; g = fl (h - of_int \<lfloor>h\<rfloor>);
          lo = arr ! i; hi = arr ! min (i + 1) (n - 1); d = pf_sub hi lo
      in if g < 1 / 2 then pf_add lo (pf_mul d (Fin g))
         else pf_sub hi (pf_mul d (Fin (fl (1 - g))))))"
      by (simp only: persentil64_def Let_def vals_def arr_def n_def)
    also have "\<dots> = (let h = fl (of_nat (n - 1) * q); i = nat \<lfloor>h\<rfloor>; g = fl (h - of_int \<lfloor>h\<rfloor>);
          lo = arr ! i; hi = arr ! min (i + 1) (n - 1); d = pf_sub hi lo
      in if g < 1 / 2 then pf_add lo (pf_mul d (Fin g))
         else pf_sub hi (pf_mul d (Fin (fl (1 - g)))))"
      using n0 by (simp only: if_not_P[OF less_imp_neq[OF n0, symmetric]])
    finally show ?thesis by (simp only: cnt[symmetric] h_def[symmetric] Let_def)
  qed
  show ?thesis
  proof (cases "n = 1")
    case True
    then have h0: "h = 0" by (simp add: h_def fl_zero)
    have "quantile xs q = np_lerp (arr ! 0) (arr ! 0) 1"
      unfolding Q using True h0 by (simp add: Let_def fl_one)
    also have "\<dots> = pf_sub (arr ! 0) (pf_mul (pf_sub (arr ! 0) (arr ! 0)) (Fin 0))"
      by (simp add: np_lerp_def Let_def fl_zero)
    also have "\<dots> = pf_add (arr ! 0) (pf_mul (pf_sub (arr ! 0) (arr ! 0)) (Fin 0))"
      by (rule lerp_same_zero)
    also have "\<dots> = persentil64 xs q"
      unfolding P using True h0 by (simp add: Let_def fl_zero)
    finally show ?thesis .
  next
    case False
    then have n2: "2 \<le> n" using n0 by simp
    define x where "x = of_int (int n - 1) * q"
    have x1: "1 / 8 \<le> x"
    proof -
      have "1 * (1 / 8) \<le> of_int (int n - 1) * q"
        using n2 q2 by (intro mult_mono) simp_all
      then show ?thesis by (simp add: x_def)
    qed
    have hx: "\<bar>h - x\<bar> \<le> x / 2 ^ 53" unfolding h_def x_def[symmetric] by (rule fl_rel_error[OF x1])
    have hpos: "0 \<le> h" unfolding h_def using n2 q2 by (intro fl_nonneg) simp
    have "h - x \<le> x / 2 ^ 53" using hx by linarith
    then have "h \<le> x + x / 2 ^ 53" by linarith
    also have "\<dots> = x * (1 + 1 / 2 ^ 53)" by (simp only: distrib_left mult_1_right times_divide_eq_right)
    also have "\<dots> = of_int (int n - 1) * (q * (1 + 1 / 2 ^ 53))" by (simp only: x_def mult.assoc)
    also have "\<dots> < of_int (int n - 1) * 1"
    proof -
      have "q * (1 + 1 / 2 ^ 53) \<le> 7 / 8 * (1 + 1 / 2 ^ 53)" using q3 by (intro mult_right_mono) simp_all
      also have "\<dots> < 1" by simp
      finally have "q * (1 + 1 / 2 ^ 53) < 1" .
      then show ?thesis using n2 by (intro mult_strict_left_mono) simp_all
    qed
    finally have hlt: "h < of_int (int n - 1)" by simp
    have fl0: "0 \<le> \<lfloor>h\<rfloor>" using hpos by simp
    have fl1: "\<lfloor>h\<rfloor> < int n - 1" using hlt by (simp add: floor_less_iff)
    have i1: "nat (\<lfloor>h\<rfloor> + 1) = nat \<lfloor>h\<rfloor> + 1" using fl0 by (simp add: nat_add_distrib)
    have "nat \<lfloor>h\<rfloor> + 1 \<le> n - 1" using fl0 fl1 by linarith
    then have i2: "min (nat \<lfloor>h\<rfloor> + 1) (n - 1) = nat \<lfloor>h\<rfloor> + 1" by (rule min_absorb1)
    have "quantile xs q = np_lerp (arr ! nat \<lfloor>h\<rfloor>) (arr ! (nat \<lfloor>h\<rfloor> + 1)) (fl (h - of_int \<lfloor>h\<rfloor>))"
    proof -
      have a: "\<not> of_int (int n - 1) \<le> h" "\<not> h < 0" "\<not> \<lfloor>h\<rfloor> < 0" "\<not> \<lfloor>h\<rfloor> + 1 < 0"
        using hlt hpos fl0 by (simp, simp, linarith, linarith)
      show ?thesis unfolding Q Let_def by (simp only: a if_False i1)
    qed
    also have "\<dots> = persentil64 xs q"
      unfolding P np_lerp_def Let_def by (simp only: i2 not_less[symmetric] if_not_P if_P split: if_splits) auto
    finally show ?thesis .
  qed
qed

lemma q25: "fl (fl (25 / 100 * 100) / 100) = 25 / 100" by code_simp
lemma q75: "fl (fl (75 / 100 * 100) / 100) = 75 / 100" by code_simp
lemma q20: "fl (fl (fl (20 / 100) * 100) / 100) = fl (20 / 100)" by code_simp
lemma q80: "fl (fl (fl (80 / 100) * 100) / 100) = fl (80 / 100)" by code_simp
lemma q20_bounds: "1 / 8 \<le> fl (20 / 100) \<and> fl (20 / 100) \<le> 7 / 8" by code_simp
lemma q80_bounds: "1 / 8 \<le> fl (80 / 100) \<and> fl (80 / 100) \<le> 7 / 8" by code_simp

lemma quantile_25: "quantile xs (25 / 100) = persentil64 xs (25 / 100)"
  by (rule quantile_persentil64[OF q25]) simp_all

lemma quantile_75: "quantile xs (75 / 100) = persentil64 xs (75 / 100)"
  by (rule quantile_persentil64[OF q75]) simp_all

lemma quantile_20: "quantile xs (fl (20 / 100)) = persentil64 xs (fl (20 / 100))"
  using q20_bounds by (intro quantile_persentil64[OF q20]) simp_all

lemma quantile_80: "quantile xs (fl (80 / 100)) = persentil64 xs (fl (80 / 100))"
  using q80_bounds by (intro quantile_persentil64[OF q80]) simp_all

lemma py_max_lower: "pf_le (py_max X (Fin c)) a \<Longrightarrow> pf_le (Fin c) a"
  by (cases X; cases a) (auto simp: py_max_def split: if_splits)

lemma py_min_upper: "pf_le a (py_min Y (Fin c)) \<Longrightarrow> pf_le a (Fin c)"
  by (cases Y; cases a) (auto simp: py_min_def split: if_splits)

lemma pf_le_between: "pf_le (Fin lo) a \<Longrightarrow> pf_le a (Fin hi) \<Longrightarrow> \<exists>r. a = Fin r \<and> lo \<le> r \<and> r \<le> hi"
  by (cases a) auto

lemma filter_rutin_eq:
  "filter_pengeluaran_rutin data =
     (if data = [] then data
      else (let xs = map Pengeluaran data;
                Q1 = persentil64 xs (25 / 100);
                Q3 = persentil64 xs (75 / 100);
                upper = py_min (pf_add Q3 (pf_mul (Fin (3 / 2)) (pf_sub Q3 Q1))) (Fin 100000);
                lower = py_max (pf_mul Q1 (Fin (1 / 2))) (Fin 5000);
                kept = filter (\<lambda>t. pf_le lower (Pengeluaran t) \<and> pf_le (Pengeluaran t) upper) data;
                p20 = persentil64 (map Pengeluaran kept) (fl (20 / 100));
                p80 = persentil64 (map Pengeluaran kept) (fl (80 / 100))
            in filter (\<lambda>t. pf_le p20 (Pengeluaran t) \<and> pf_le (Pengeluaran t) p80) kept))"
  unfolding filter_pengeluaran_rutin_def Let_def
  by (simp only: boolean_index_filter quantile_25 quantile_75 quantile_20 quantile_80)

lemma filter_rutin_bounds:
  assumes "t \<in> set (filter_pengeluaran_rutin data)"
  shows "\<exists>r. Pengeluaran t = Fin r \<and> 5000 \<le> r \<and> r \<le> 100000"
proof (cases "data = []")
  case True
  then show ?thesis using assms by (simp add: filter_pengeluaran_rutin_def)
next
  case False
  define Q1 where "Q1 = persentil64 (map Pengeluaran data) (25 / 100)"
  define Q3 where "Q3 = persentil64 (map Pengeluaran data) (75 / 100)"
  from assms have "pf_le (py_max (pf_mul Q1 (Fin (1 / 2))) (Fin 5000)) (Pengeluaran t) \<and>
      pf_le (Pengeluaran t) (py_min (pf_add Q3 (pf_mul (Fin (3 / 2)) (pf_sub Q3 Q1))) (Fin 100000))"
    unfolding filter_rutin_eq Let_def Q1_def Q3_def using False by simp
  then have "pf_le (Fin 5000) (Pengeluaran t)" "pf_le (Pengeluaran t) (Fin 100000)"
    using py_max_lower py_min_upper by blast+
  then show ?thesis by (rule pf_le_between)
qed

subsection \<open>The routine filter on an empty set\<close>

text \<open>
  C9: the routine filter applied to an empty transaction set returns the empty set at
  once: the first test of the function returns its argument, no quantile is computed
  and no error is raised.
\<close>

theorem filter_rutin_kosong: "filter_pengeluaran_rutin [] = []"
  by (simp add: filter_pengeluaran_rutin_def)

subsection \<open>The period of thirty days\<close>

text \<open>
  C5: for every date the remaining days are 30 minus the day of the month, whatever
  the month and the year; when that number is zero or negative the forecast is
  abandoned with \<open>PeriodExhausted\<close>, so that no estimate, trajectory or final balance
  is produced.
\<close>

theorem sisa_hari_tiga_puluh:
  "(30 - int (day tgl) \<le> 0 \<longrightarrow> prediksi_harian saldo (Some tgl) data = Inl PeriodExhausted) \<and>
   (\<forall>r. prediksi_harian saldo (Some tgl) data = Inr r \<longrightarrow> sisa_hari r = 30 - int (day tgl))"
  by (auto simp: prediksi_harian_def Let_def split: option.splits if_splits pyfloat.splits)

theorem sisa_hari_tiga_puluh_witness:
  "30 - int (day \<lparr>year = 2025, month = 10, day = 31\<rparr>) \<le> 0 \<and>
   prediksi_harian 400000 (Some \<lparr>year = 2025, month = 10, day = 31\<rparr>)
     [\<lparr>Deskripsi = ''Makan -12.000'', Pengeluaran = Fin 12000\<rparr>] = Inl PeriodExhausted \<and>
   prediksi_harian 400000 (Some \<lparr>year = 2025, month = 2, day = 28\<rparr>)
     [\<lparr>Deskripsi = ''Makan -12.000'', Pengeluaran = Fin 12000\<rparr>] =
     Inr \<lparr>sisa_hari = 2, median_harian = 12000, estimasi_harian = 14000,
          total_pengeluaran_sisa = 28000, estimasi_saldo_akhir = 372000,
          kategori_saldo = Aman, saldo_harian = [400000, 386000, 372000],
          tanggal_list = [28, 29, 30]\<rparr> \<and>
   sisa_hari \<lparr>sisa_hari = 2, median_harian = 12000, estimasi_harian = 14000,
          total_pengeluaran_sisa = 28000, estimasi_saldo_akhir = 372000,
          kategori_saldo = Aman, saldo_harian = [400000, 386000, 372000],
          tanggal_list = [28, 29, 30]\<rparr> = 30 - int (day \<lparr>year = 2025, month = 2, day = 28\<rparr>)"
proof -
  have e: "prediksi_harian 400000 (Some \<lparr>year = 2025, month = 2, day = 28\<rparr>)
     [\<lparr>Deskripsi = ''Makan -12.000'', Pengeluaran = Fin 12000\<rparr>] =
     Inr \<lparr>sisa_hari = 2, median_harian = 12000, estimasi_harian = 14000,
          total_pengeluaran_sisa = 28000, estimasi_saldo_akhir = 372000,
          kategori_saldo = Aman, saldo_harian = [400000, 386000, 372000],
          tanggal_list = [28, 29, 30]\<rparr>"
    by code_simp
  show ?thesis
    using e
      sisa_hari_tiga_puluh [of "\<lparr>year = 2025, month = 10, day = 31\<rparr>" 400000
        "[\<lparr>Deskripsi = ''Makan -12.000'', Pengeluaran = Fin 12000\<rparr>]"]
      sisa_hari_tiga_puluh [of "\<lparr>year = 2025, month = 2, day = 28\<rparr>" 400000
        "[\<lparr>Deskripsi = ''Makan -12.000'', Pengeluaran = Fin 12000\<rparr>]"]
    by simp
qed

subsection \<open>The worked example\<close>

text \<open>
  C3: for the amounts 10000, 12000, 11000, 15000 and 9000, a balance of 100000 and a
  date on day 25, the forecaster finds 5 remaining days, the median 11000, a daily
  estimate of 13000 and the final balance 100000 - 13000 * 5 = 35000, which lies in the
  band from 0 to 100000 of the message for a tight balance.
\<close>

theorem prediksi_contoh:
  "prediksi_harian 100000 (Some \<lparr>year = y, month = m, day = 25\<rparr>)
     [\<lparr>Deskripsi = d1, Pengeluaran = Fin 10000\<rparr>, \<lparr>Deskripsi = d2, Pengeluaran = Fin 12000\<rparr>,
      \<lparr>Deskripsi = d3, Pengeluaran = Fin 11000\<rparr>, \<lparr>Deskripsi = d4, Pengeluaran = Fin 15000\<rparr>,
      \<lparr>Deskripsi = d5, Pengeluaran = Fin 9000\<rparr>]
   = Inr \<lparr>sisa_hari = 5, median_harian = 11000, estimasi_harian = 13000,
          total_pengeluaran_sisa = 65000, estimasi_saldo_akhir = 100000 - 13000 * 5,
          kategori_saldo = Tipis,
          saldo_harian = [100000, 87000, 74000, 61000, 48000, 35000],
          tanggal_list = [25, 26, 27, 28, 29, 30]\<rparr> \<and>
   klasifikasi 35000 = Tipis \<and> (0::rat) \<le> 35000 \<and> (35000::rat) < 100000 \<and>
   py_int (round_ribuan (fmul 11000 c115)) = 13000"
  by code_simp

subsection \<open>The two stages of the routine filter\<close>

text \<open>
  C1 as stated fails when the percentiles are read as the exact linear interpolation:
  for the two amounts 10000 and 10000.000000000002 (the binary64 value next after
  10000, which is 10000 + 2^-39) the exact percentiles 0.2 and 0.8 of the
  first stage lie strictly between the two amounts, so that no row would be retained;
  the source computes both percentiles in binary64, where they round to the two
  amounts themselves, and retains both rows.
\<close>

theorem filter_rutin_counterexample:
  "map Pengeluaran (filter_pengeluaran_rutin
      [\<lparr>Deskripsi = ''Kopi -10000'', Pengeluaran = Fin 10000\<rparr>,
       \<lparr>Deskripsi = ''Teh -10000,000000000002'', Pengeluaran = Fin (10000 + 1 / 2 ^ 39)\<rparr>])
     = [Fin 10000, Fin (10000 + 1 / 2 ^ 39)] \<and>
   saring_rutin_eksak [10000, 10000 + 1 / 2 ^ 39] = [] \<and>
   bersihkan_nominal ''-10000'' = Fin 10000 \<and>
   bersihkan_nominal ''-10000,000000000002'' = Fin (10000 + 1 / 2 ^ 39)"
  by code_simp

text \<open>
  C1, amended: for every transaction set that is not empty, the first stage keeps
  exactly the rows whose amount lies between max(Q1 * 0.5, 5000) and
  min(Q3 + 1.5 * (Q3 - Q1), 100000), both bounds included, and the second stage keeps,
  of those rows, exactly the ones whose amount lies between the percentiles 0.2 and 0.8
  of the amounts kept by the first stage, both included, where every percentile is
  the linear interpolation computed in binary64 (\<open>persentil64\<close>), the bounds are computed
  in binary64 with the minimum and maximum of Python, and a comparison with a bound
  that is NaN is false, which retains nothing. Every retained amount is finite and
  between 5000 and 100000, and the retained rows are rows of the input in their order.
\<close>

theorem filter_rutin_dua_tahap:
  assumes "data \<noteq> []"
  shows "(let xs = map Pengeluaran data;
              Q1 = persentil64 xs (25 / 100);
              Q3 = persentil64 xs (75 / 100);
              IQR = pf_sub Q3 Q1;
              upper = py_min (pf_add Q3 (pf_mul (Fin (3 / 2)) IQR)) (Fin 100000);
              lower = py_max (pf_mul Q1 (Fin (1 / 2))) (Fin 5000);
              kept = filter (\<lambda>t. pf_le lower (Pengeluaran t) \<and> pf_le (Pengeluaran t) upper) data;
              p20 = persentil64 (map Pengeluaran kept) (fl (20 / 100));
              p80 = persentil64 (map Pengeluaran kept) (fl (80 / 100))
          in filter_pengeluaran_rutin data =
               filter (\<lambda>t. pf_le p20 (Pengeluaran t) \<and> pf_le (Pengeluaran t) p80) kept) \<and>
         (\<forall>t\<in>set (filter_pengeluaran_rutin data).
            \<exists>r. Pengeluaran t = Fin r \<and> 5000 \<le> r \<and> r \<le> 100000) \<and>
         subseq (filter_pengeluaran_rutin data) data"
proof (intro conjI)
  show "let xs = map Pengeluaran data;
              Q1 = persentil64 xs (25 / 100);
              Q3 = persentil64 xs (75 / 100);
              IQR = pf_sub Q3 Q1;
              upper = py_min (pf_add Q3 (pf_mul (Fin (3 / 2)) IQR)) (Fin 100000);
              lower = py_max (pf_mul Q1 (Fin (1 / 2))) (Fin 5000);
              kept = filter (\<lambda>t. pf_le lower (Pengeluaran t) \<and> pf_le (Pengeluaran t) upper) data;
              p20 = persentil64 (map Pengeluaran kept) (fl (20 / 100));
              p80 = persentil64 (map Pengeluaran kept) (fl (80 / 100))
          in filter_pengeluaran_rutin data =
               filter (\<lambda>t. pf_le p20 (Pengeluaran t) \<and> pf_le (Pengeluaran t) p80) kept"
    unfolding filter_rutin_eq Let_def using assms by (simp only: if_False)
  show "\<forall>t\<in>set (filter_pengeluaran_rutin data).
            \<exists>r. Pengeluaran t = Fin r \<and> 5000 \<le> r \<and> r \<le> 100000"
    using filter_rutin_bounds by blast
  show "subseq (filter_pengeluaran_rutin data) data"
    unfolding filter_rutin_eq Let_def using assms
    by (simp only: if_False) (rule subseq_order.order_trans[OF subseq_filter_left subseq_filter_left])
qed

theorem filter_rutin_dua_tahap_witness:
  "[\<lparr>Deskripsi = ''a'', Pengeluaran = Fin 10000\<rparr>, \<lparr>Deskripsi = ''b'', Pengeluaran = Fin 12000\<rparr>,
    \<lparr>Deskripsi = ''c'', Pengeluaran = Fin 2000\<rparr>, \<lparr>Deskripsi = ''d'', Pengeluaran = Fin 15000\<rparr>,
    \<lparr>Deskripsi = ''e'', Pengeluaran = Fin 9000\<rparr>, \<lparr>Deskripsi = ''f'', Pengeluaran = Fin 5000000\<rparr>]
     \<noteq> ([] :: pyfloat transaksi list) \<and>
   persentil64 [Fin 10000, Fin 12000, Fin 2000, Fin 15000, Fin 9000, Fin 5000000] (25 / 100) = Fin 9250 \<and>
   persentil64 [Fin 10000, Fin 12000, Fin 2000, Fin 15000, Fin 9000, Fin 5000000] (75 / 100) = Fin 14250 \<and>
   py_min (pf_add (Fin 14250) (pf_mul (Fin (3 / 2)) (pf_sub (Fin 14250) (Fin 9250)))) (Fin 100000) = Fin 21750 \<and>
   py_max (pf_mul (Fin 9250) (Fin (1 / 2))) (Fin 5000) = Fin 5000 \<and>
   persentil64 [Fin 10000, Fin 12000, Fin 15000, Fin 9000] (fl (20 / 100)) = Fin 9600 \<and>
   persentil64 [Fin 10000, Fin 12000, Fin 15000, Fin 9000] (fl (80 / 100)) = Fin (13200 + 1 / 2 ^ 39) \<and>
   filter_pengeluaran_rutin
     [\<lparr>Deskripsi = ''a'', Pengeluaran = Fin 10000\<rparr>, \<lparr>Deskripsi = ''b'', Pengeluaran = Fin 12000\<rparr>,
      \<lparr>Deskripsi = ''c'', Pengeluaran = Fin 2000\<rparr>, \<lparr>Deskripsi = ''d'', Pengeluaran = Fin 15000\<rparr>,
      \<lparr>Deskripsi = ''e'', Pengeluaran = Fin 9000\<rparr>, \<lparr>Deskripsi = ''f'', Pengeluaran = Fin 5000000\<rparr>] =
     [\<lparr>Deskripsi = ''a'', Pengeluaran = Fin 10000\<rparr>, \<lparr>Deskripsi = ''b'', Pengeluaran = Fin 12000\<rparr>] \<and>
   (\<exists>r. Pengeluaran \<lparr>Deskripsi = ''a'', Pengeluaran = Fin 10000\<rparr> = Fin r \<and> 5000 \<le> r \<and> r \<le> 100000) \<and>
   (\<exists>r. Pengeluaran \<lparr>Deskripsi = ''b'', Pengeluaran = Fin 12000\<rparr> = Fin r \<and> 5000 \<le> r \<and> r \<le> 100000)"
proof -
  have h: "[\<lparr>Deskripsi = ''a'', Pengeluaran = Fin 10000\<rparr>, \<lparr>Deskripsi = ''b'', Pengeluaran = Fin 12000\<rparr>,
    \<lparr>Deskripsi = ''c'', Pengeluaran = Fin 2000\<rparr>, \<lparr>Deskripsi = ''d'', Pengeluaran = Fin 15000\<rparr>,
    \<lparr>Deskripsi = ''e'', Pengeluaran = Fin 9000\<rparr>, \<lparr>Deskripsi = ''f'', Pengeluaran = Fin 5000000\<rparr>]
     \<noteq> ([] :: pyfloat transaksi list)" by simp
  have e1: "persentil64 [Fin 10000, Fin 12000, Fin 2000, Fin 15000, Fin 9000, Fin 5000000] (25 / 100) = Fin 9250"
    by code_simp
  have e2: "persentil64 [Fin 10000, Fin 12000, Fin 2000, Fin 15000, Fin 9000, Fin 5000000] (75 / 100) = Fin 14250"
    by code_simp
  have e3: "py_min (pf_add (Fin 14250) (pf_mul (Fin (3 / 2)) (pf_sub (Fin 14250) (Fin 9250)))) (Fin 100000) = Fin 21750"
    by code_simp
  have e4: "py_max (pf_mul (Fin 9250) (Fin (1 / 2))) (Fin 5000) = Fin 5000" by code_simp
  have e5: "persentil64 [Fin 10000, Fin 12000, Fin 15000, Fin 9000] (fl (20 / 100)) = Fin 9600" by code_simp
  have e6: "persentil64 [Fin 10000, Fin 12000, Fin 15000, Fin 9000] (fl (80 / 100)) = Fin (13200 + 1 / 2 ^ 39)"
    by code_simp
  have e7: "filter_pengeluaran_rutin
     [\<lparr>Deskripsi = ''a'', Pengeluaran = Fin 10000\<rparr>, \<lparr>Deskripsi = ''b'', Pengeluaran = Fin 12000\<rparr>,
      \<lparr>Deskripsi = ''c'', Pengeluaran = Fin 2000\<rparr>, \<lparr>Deskripsi = ''d'', Pengeluaran = Fin 15000\<rparr>,
      \<lparr>Deskripsi = ''e'', Pengeluaran = Fin 9000\<rparr>, \<lparr>Deskripsi = ''f'', Pengeluaran = Fin 5000000\<rparr>] =
     [\<lparr>Deskripsi = ''a'', Pengeluaran = Fin 10000\<rparr>, \<lparr>Deskripsi = ''b'', Pengeluaran = Fin 12000\<rparr>]"
    by code_simp
  have c: "\<forall>t\<in>set [\<lparr>Deskripsi = ''a'', Pengeluaran = Fin 10000\<rparr>, \<lparr>Deskripsi = ''b'', Pengeluaran = Fin 12000\<rparr>].
      \<exists>r. Pengeluaran t = Fin r \<and> 5000 \<le> r \<and> r \<le> 100000"
    using conjunct1[OF conjunct2[OF filter_rutin_dua_tahap [OF h]]] unfolding e7 .
  have c1: "\<exists>r. Pengeluaran \<lparr>Deskripsi = ''a'', Pengeluaran = Fin 10000\<rparr> = Fin r \<and> 5000 \<le> r \<and> r \<le> 100000"
    by (rule bspec[OF c]) simp
  have c2: "\<exists>r. Pengeluaran \<lparr>Deskripsi = ''b'', Pengeluaran = Fin 12000\<rparr> = Fin r \<and> 5000 \<le> r \<and> r \<le> 100000"
    by (rule bspec[OF c]) simp
  show ?thesis
    using h e1 e2 e3 e4 e5 e6 e7 c1 c2 by blast
qed

subsection \<open>Facts about the estimate and the simulation\<close>

lemma c115_value: "c115 = 2589569785738035 / 2251799813685248"
  by code_simp

lemma round_half_even_tie:
  "\<bar>of_int (round_half_even y) - y\<bar> = 1 / 2 \<Longrightarrow> even (round_half_even y)"
proof -
  assume a: "\<bar>of_int (round_half_even y) - y\<bar> = 1 / 2"
  have f: "of_int \<lfloor>y\<rfloor> \<le> y" "y < of_int \<lfloor>y\<rfloor> + 1" by linarith+
  show ?thesis
  proof (cases "y - of_int \<lfloor>y\<rfloor> = 1 / 2")
    case True
    then show ?thesis by (simp add: round_half_even_def Let_def)
  next
    case False
    then have "\<bar>of_int (round_half_even y) - y\<bar> \<noteq> 1 / 2"
      using f by (auto simp: round_half_even_def Let_def)
    then show ?thesis using a by simp
  qed
qed

lemma bulat_Fin: "bulat x = Fin p \<Longrightarrow> p = fl x"
  by (auto simp: bulat_def Let_def split: if_splits)

lemma bulat_small: "\<bar>fl x\<bar> \<le> 2 ^ 53 \<Longrightarrow> bulat x = Fin (fl x)"
  using overflows_small[of "fl x"] by (simp add: bulat_def Let_def)

lemma fl_near:
  assumes "1 \<le> x" and "x \<le> 2 ^ 53"
  shows "x - 1 \<le> fl x \<and> fl x \<le> x + 1"
proof -
  have "\<bar>fl x - x\<bar> \<le> x / 2 ^ 53" using assms(1) by (intro fl_rel_error) simp
  also have "\<dots> \<le> 1" using assms by simp
  finally show ?thesis by linarith
qed

lemma median_rutin:
  assumes all: "\<forall>x\<in>set xs. \<exists>r. x = Fin r \<and> 5000 \<le> r \<and> r \<le> 100000" and ne: "xs \<noteq> []"
  shows "\<exists>med. median xs = Fin med \<and> 4998 \<le> med \<and> med \<le> 100002 \<and>
     (odd (length xs) \<longrightarrow> np_sort xs ! (length xs div 2) = Fin med) \<and>
     (even (length xs) \<longrightarrow>
        (\<exists>a b. np_sort xs ! (length xs div 2 - 1) = Fin a \<and> np_sort xs ! (length xs div 2) = Fin b \<and>
               med = fl (fl (a + b) / 2)))"
proof -
  define s where "s = np_sort xs"
  define n where "n = length xs"
  have n: "0 < n" using ne by (simp add: n_def)
  have len: "length s = n" by (simp add: s_def n_def length_np_sort)
  have "\<forall>x\<in>set xs. x \<noteq> NaN" using all by auto
  then have fil: "filter (\<lambda>v. v \<noteq> NaN) xs = xs" by (simp add: filter_id_conv)
  have mem: "\<exists>r. s ! i = Fin r \<and> 5000 \<le> r \<and> r \<le> 100000" if "i < n" for i
  proof -
    have "s ! i \<in> set s" using that len by simp
    then have "s ! i \<in> set xs" by (simp add: s_def set_np_sort)
    then show ?thesis using all by blast
  qed
  have M: "median xs = (if odd n then s ! (n div 2)
      else pf_div_count (pf_add (s ! (n div 2 - 1)) (s ! (n div 2))) 2)"
    using ne by (simp add: median_def fil Let_def s_def n_def length_np_sort)
  show ?thesis
  proof (cases "odd n")
    case True
    have "n div 2 < n" using n by simp
    from mem[OF this] obtain r where r: "s ! (n div 2) = Fin r" "5000 \<le> r" "r \<le> 100000" by blast
    have "median xs = Fin r" using M True r by simp
    then show ?thesis using r True by (auto simp: s_def n_def)
  next
    case False
    have "n div 2 < n" "n div 2 - 1 < n" using n by simp_all
    from mem[OF this(1)] mem[OF this(2)] obtain a b
      where a: "s ! (n div 2 - 1) = Fin a" "5000 \<le> a" "a \<le> 100000"
        and b: "s ! (n div 2) = Fin b" "5000 \<le> b" "b \<le> 100000" by blast
    define t where "t = fl (a + b)"
    have t: "a + b - 1 \<le> t \<and> t \<le> a + b + 1" unfolding t_def using a b by (intro fl_near) simp_all
    then have "\<bar>t\<bar> \<le> 2 ^ 53" using a b by simp
    then have bt: "bulat (a + b) = Fin t" unfolding t_def by (rule bulat_small)
    define m where "m = fl (t / 2)"
    have m: "t / 2 - 1 \<le> m \<and> m \<le> t / 2 + 1" unfolding m_def using t a b by (intro fl_near) simp_all
    then have mb: "4998 \<le> m" "m \<le> 100002" using t a b by simp_all
    then have "\<bar>m\<bar> \<le> 2 ^ 53" by simp
    then have bm: "bulat (t / 2) = Fin m" unfolding m_def by (rule bulat_small)
    have "median xs = Fin m" using M False a b by (simp add: bt bm)
    moreover have "m = fl (fl (a + b) / 2)" by (simp add: m_def t_def)
    ultimately show ?thesis using a b mb False by (auto simp: s_def n_def)
  qed
qed

lemma estimasi_value:
  assumes "4998 \<le> med" and "med \<le> 100002"
  shows "py_int (round_ribuan (fmul med c115)) = 1000 * round_half_even (fmul med c115 / 1000)"
    and "0 \<le> round_half_even (fmul med c115 / 1000)"
    and "round_half_even (fmul med c115 / 1000) \<le> 116"
    and "\<bar>fmul med c115\<bar> \<le> 2 ^ 53"
proof -
  define y where "y = med * c115"
  define p where "p = fl y"
  define k where "k = round_half_even (p / 1000)"
  have c: "1 \<le> c115" "c115 \<le> 115 / 100" by (simp_all add: c115_value)
  have y1: "4998 \<le> y"
  proof -
    have "4998 * 1 \<le> med * c115" using assms(1) c(1) by (intro mult_mono) simp_all
    then show ?thesis by (simp add: y_def)
  qed
  have y2: "y \<le> 115003"
  proof -
    have "med * c115 \<le> 100002 * (115 / 100)" using assms c by (intro mult_mono) simp_all
    then show ?thesis by (simp add: y_def)
  qed
  have "y - 1 \<le> p \<and> p \<le> y + 1" unfolding p_def using y1 y2 by (intro fl_near) simp_all
  then have p1: "4997 \<le> p" and p2: "p \<le> 115004" using y1 y2 by simp_all
  have kb: "\<bar>of_int k - p / 1000\<bar> \<le> 1 / 2" unfolding k_def by (rule round_half_even_bound)
  have kl: "p / 1000 - 1 / 2 \<le> of_int k" and ku: "of_int k \<le> p / 1000 + 1 / 2"
    using kb by linarith+
  have pl: "4997 / 1000 \<le> p / 1000" and pu: "p / 1000 \<le> 115004 / 1000"
    using p1 p2 by simp_all
  have "(4::rat) < of_int k" using kl pl by linarith
  then have k1: "4 < k" by linarith
  have "of_int k < (117::rat)" using ku pu by linarith
  then have k2: "k < 117" by linarith
  have "\<bar>1000 * k\<bar> \<le> 2 ^ 53" using k1 k2 by simp
  then have "fl (of_int (1000 * k)) = of_int (1000 * k)" by (rule fl_of_int)
  then have r: "round_ribuan p = of_int (1000 * k)" by (simp add: round_ribuan_def k_def)
  have "py_int (round_ribuan p) = 1000 * k"
    unfolding r py_int_def by (simp only: floor_of_int ceiling_of_int if_cancel)
  then show "py_int (round_ribuan (fmul med c115)) = 1000 * round_half_even (fmul med c115 / 1000)"
    by (simp add: fmul_def p_def y_def k_def)
  show "0 \<le> round_half_even (fmul med c115 / 1000)"
    using k1 by (simp add: fmul_def p_def y_def k_def)
  show "round_half_even (fmul med c115 / 1000) \<le> 116"
    using k2 by (simp add: fmul_def p_def y_def k_def)
  show "\<bar>fmul med c115\<bar> \<le> 2 ^ 53"
    using p1 p2 by (simp add: fmul_def p_def y_def)
qed

lemma prediksi_Inr:
  assumes "prediksi_harian saldo (Some tgl) data = Inr r"
  shows "\<exists>med. median (map Pengeluaran (filter_pengeluaran_rutin data)) = Fin med \<and>
     filter_pengeluaran_rutin data \<noteq> [] \<and>
     0 < 30 - int (day tgl) \<and>
     r = \<lparr>sisa_hari = 30 - int (day tgl),
          median_harian = med,
          estimasi_harian = py_int (round_ribuan (fmul med c115)),
          total_pengeluaran_sisa = py_int (round_ribuan (fmul med c115)) * (30 - int (day tgl)),
          estimasi_saldo_akhir = fsub saldo (int_to_float (py_int (round_ribuan (fmul med c115)) * (30 - int (day tgl)))),
          kategori_saldo = klasifikasi (fsub saldo (int_to_float (py_int (round_ribuan (fmul med c115)) * (30 - int (day tgl))))),
          saldo_harian = fst (snd (simulasi saldo (py_int (round_ribuan (fmul med c115))) (int (day tgl)) (30 - int (day tgl)))),
          tanggal_list = snd (snd (simulasi saldo (py_int (round_ribuan (fmul med c115))) (int (day tgl)) (30 - int (day tgl))))\<rparr>"
proof -
  have n: "\<not> 30 - int (day tgl) \<le> 0" and ne: "filter_pengeluaran_rutin data \<noteq> []"
    using assms by (auto simp: prediksi_harian_def Let_def split: if_splits)
  obtain med where med: "median (map Pengeluaran (filter_pengeluaran_rutin data)) = Fin med"
    using assms n ne by (cases "median (map Pengeluaran (filter_pengeluaran_rutin data))")
      (auto simp: prediksi_harian_def Let_def)
  obtain p where p: "bulat (med * c115) = Fin p"
    using assms n ne med by (cases "bulat (med * c115)") (auto simp: prediksi_harian_def Let_def)
  have pf: "p = fmul med c115" using bulat_Fin[OF p] by (simp add: fmul_def)
  show ?thesis using assms n ne med p unfolding pf
    by (auto simp: prediksi_harian_def Let_def)
qed

lemma median_rutin_filter:
  assumes "filter_pengeluaran_rutin data \<noteq> []"
  shows "\<exists>med. median (map Pengeluaran (filter_pengeluaran_rutin data)) = Fin med \<and>
     4998 \<le> med \<and> med \<le> 100002 \<and>
     (odd (length (filter_pengeluaran_rutin data)) \<longrightarrow>
        np_sort (map Pengeluaran (filter_pengeluaran_rutin data)) !
          (length (filter_pengeluaran_rutin data) div 2) = Fin med) \<and>
     (even (length (filter_pengeluaran_rutin data)) \<longrightarrow>
        (\<exists>a b. np_sort (map Pengeluaran (filter_pengeluaran_rutin data)) !
                 (length (filter_pengeluaran_rutin data) div 2 - 1) = Fin a \<and>
               np_sort (map Pengeluaran (filter_pengeluaran_rutin data)) !
                 (length (filter_pengeluaran_rutin data) div 2) = Fin b \<and>
               med = fl (fl (a + b) / 2)))"
proof -
  have a: "\<forall>x\<in>set (map Pengeluaran (filter_pengeluaran_rutin data)).
      \<exists>r. x = Fin r \<and> 5000 \<le> r \<and> r \<le> 100000"
    using filter_rutin_bounds[of _ data] by auto
  have b: "map Pengeluaran (filter_pengeluaran_rutin data) \<noteq> []" using assms by simp
  from median_rutin[OF a b] show ?thesis by (simp only: length_map)
qed

lemma simulasi_saldo_ke:
  assumes "int_to_float e = of_int e"
  shows "simulasi s e h (int m) =
     (saldo_ke s e m, map (saldo_ke s e) [0..<Suc m], map (\<lambda>k. h + k) [0..int m])"
proof (induction m)
  case 0
  then show ?case by (simp add: simulasi_def)
next
  case (Suc m)
  have u1: "[1..int (Suc m)] = [1..int m] @ [int m + 1]"
    using upto_rec2[of 1 "int (Suc m)"] by simp
  have u0: "[0..int (Suc m)] = [0..int m] @ [int m + 1]"
    using upto_rec2[of 0 "int (Suc m)"] by simp
  have st: "simulasi s e h (int (Suc m)) = langkah e h (simulasi s e h (int m)) (int m + 1)"
    unfolding simulasi_def u1 by simp
  have F: "fsub (saldo_ke s e m) (int_to_float e) = saldo_ke s e (Suc m)"
    by (simp only: fsub_def assms saldo_ke.simps)
  have lk: "langkah e h (saldo_ke s e m, map (saldo_ke s e) [0..<Suc m],
      map (\<lambda>k. h + k) [0..int m]) (int m + 1) =
      (saldo_ke s e (Suc m), map (saldo_ke s e) [0..<Suc m] @ [saldo_ke s e (Suc m)],
       map (\<lambda>k. h + k) [0..int m] @ [h + (int m + 1)])"
    by (simp only: langkah_def prod.case Let_def F)
  have r1: "map (saldo_ke s e) [0..<Suc (Suc m)] =
      map (saldo_ke s e) [0..<Suc m] @ [saldo_ke s e (Suc m)]"
    by simp
  have r2: "map (\<lambda>k. h + k) [0..int (Suc m)] = map (\<lambda>k. h + k) [0..int m] @ [h + (int m + 1)]"
    by (simp only: u0 map_append list.map)
  show ?case by (simp only: st Suc.IH lk r1 r2)
qed

lemma saldo_ke_exact:
  assumes "\<forall>j\<le>k. fl (s - of_int (e * int j)) = s - of_int (e * int j)"
  shows "saldo_ke s e k = s - of_int (e * int k)"
  using assms
proof (induction k)
  case 0
  then show ?case by simp
next
  case (Suc k)
  have "\<forall>j\<le>k. fl (s - of_int (e * int j)) = s - of_int (e * int j)" using Suc.prems by simp
  then have IH: "saldo_ke s e k = s - of_int (e * int k)" by (rule Suc.IH)
  have B: "s - of_int (e * int k) - of_int e = s - of_int (e * int (Suc k))"
    by (simp add: algebra_simps)
  have "saldo_ke s e (Suc k) = fl (s - of_int (e * int k) - of_int e)" by (simp only: saldo_ke.simps IH)
  also have "\<dots> = fl (s - of_int (e * int (Suc k)))" by (simp only: B)
  also have "\<dots> = s - of_int (e * int (Suc k))" using Suc.prems by blast
  finally show ?case .
qed

lemma upto_map_int: "[0..int m] = map int [0..<Suc m]"
proof (induction m)
  case 0
  then show ?case by simp
next
  case (Suc m)
  have "[0..int (Suc m)] = [0..int m] @ [int (Suc m)]"
    using upto_rec2[of 0 "int (Suc m)"] by simp
  then show ?case using Suc by simp
qed

subsection \<open>The daily estimate\<close>

text \<open>
  C2 as stated fails: for the routine set with the single amount 50000 the median times
  1.15 is 57500, which both rounding rules of the specification take to 58000; the
  source computes 57000, the binary64 product being just below 57500.
\<close>

theorem estimasi_harian_counterexample:
  "filter_pengeluaran_rutin [\<lparr>Deskripsi = ''Kos -50.000'', Pengeluaran = Fin 50000\<rparr>] =
     [\<lparr>Deskripsi = ''Kos -50.000'', Pengeluaran = Fin 50000\<rparr>] \<and>
   prediksi_harian 400000 (Some \<lparr>year = 2025, month = 10, day = 25\<rparr>)
     [\<lparr>Deskripsi = ''Kos -50.000'', Pengeluaran = Fin 50000\<rparr>] =
     Inr \<lparr>sisa_hari = 5, median_harian = 50000, estimasi_harian = 57000,
          total_pengeluaran_sisa = 285000, estimasi_saldo_akhir = 115000,
          kategori_saldo = Cukup,
          saldo_harian = [400000, 343000, 286000, 229000, 172000, 115000],
          tanggal_list = [25, 26, 27, 28, 29, 30]\<rparr> \<and>
   bulat_ribuan_genap (50000 * (115 / 100)) = 58000 \<and>
   bulat_ribuan_menjauh (50000 * (115 / 100)) = 58000 \<and>
   fmul 50000 c115 < 57500"
  by code_simp

text \<open>
  C2, amended: for every forecast that succeeds, the routine set is not empty and the
  median is the middle one of its sorted amounts or, for an even number of amounts,
  the binary64 mean of the two middle ones (their sum rounded, then halved); the
  daily estimate is the binary64 product of that median and the binary64 value of 1.15
  (which is below 115/100), rounded to the nearest thousand with a tie going to the
  even thousand: it is a multiple of 1000, at most 500 away from that product, and even
  in thousands when exactly 500 away.
\<close>

theorem estimasi_harian_median:
  assumes "prediksi_harian saldo tgl data = Inr r"
  shows "median (map Pengeluaran (filter_pengeluaran_rutin data)) = Fin (median_harian r) \<and>
     (let s = np_sort (map Pengeluaran (filter_pengeluaran_rutin data));
          n = length (filter_pengeluaran_rutin data)
      in 0 < n \<and> length s = n \<and> sorted_wrt pf_le s \<and>
         (\<forall>x. count_list s x = count_list (map Pengeluaran (filter_pengeluaran_rutin data)) x) \<and>
         (odd n \<longrightarrow> s ! (n div 2) = Fin (median_harian r)) \<and>
         (even n \<longrightarrow>
            (\<exists>a b. s ! (n div 2 - 1) = Fin a \<and> s ! (n div 2) = Fin b \<and>
                   median_harian r = fl (fl (a + b) / 2)))) \<and>
     estimasi_harian r = bulat_ribuan_genap (fmul (median_harian r) c115) \<and>
     1000 dvd estimasi_harian r \<and>
     \<bar>of_int (estimasi_harian r) - fmul (median_harian r) c115\<bar> \<le> 500 \<and>
     (\<bar>of_int (estimasi_harian r) - fmul (median_harian r) c115\<bar> = 500 \<longrightarrow>
        even (estimasi_harian r div 1000)) \<and>
     c115 < 115 / 100"
proof -
  from assms obtain d where tgl: "tgl = Some d"
    by (cases tgl) (auto simp: prediksi_harian_def)
  from prediksi_Inr[OF assms[unfolded tgl]] obtain med
    where med: "median (map Pengeluaran (filter_pengeluaran_rutin data)) = Fin med"
      and ne: "filter_pengeluaran_rutin data \<noteq> []"
      and m: "median_harian r = med"
      and e: "estimasi_harian r = py_int (round_ribuan (fmul med c115))"
    by auto
  from median_rutin_filter[OF ne] med
  have b: "4998 \<le> med" "med \<le> 100002"
    and od: "odd (length (filter_pengeluaran_rutin data)) \<longrightarrow>
        np_sort (map Pengeluaran (filter_pengeluaran_rutin data)) !
          (length (filter_pengeluaran_rutin data) div 2) = Fin med"
    and ev: "even (length (filter_pengeluaran_rutin data)) \<longrightarrow>
        (\<exists>a b. np_sort (map Pengeluaran (filter_pengeluaran_rutin data)) !
                 (length (filter_pengeluaran_rutin data) div 2 - 1) = Fin a \<and>
               np_sort (map Pengeluaran (filter_pengeluaran_rutin data)) !
                 (length (filter_pengeluaran_rutin data) div 2) = Fin b \<and>
               med = fl (fl (a + b) / 2))"
    by auto
  have nn: "NaN \<notin> set (map Pengeluaran (filter_pengeluaran_rutin data))"
  proof
    assume "NaN \<in> set (map Pengeluaran (filter_pengeluaran_rutin data))"
    then obtain t where t: "t \<in> set (filter_pengeluaran_rutin data)" "Pengeluaran t = NaN" by auto
    from filter_rutin_bounds[OF t(1)] t(2) show False by auto
  qed
  have srt: "sorted_wrt pf_le (np_sort (map Pengeluaran (filter_pengeluaran_rutin data)))"
    by (rule sorted_np_sort[OF nn])
  have st: "let s = np_sort (map Pengeluaran (filter_pengeluaran_rutin data));
          n = length (filter_pengeluaran_rutin data)
      in 0 < n \<and> length s = n \<and> sorted_wrt pf_le s \<and>
         (\<forall>x. count_list s x = count_list (map Pengeluaran (filter_pengeluaran_rutin data)) x) \<and>
         (odd n \<longrightarrow> s ! (n div 2) = Fin (median_harian r)) \<and>
         (even n \<longrightarrow>
            (\<exists>a b. s ! (n div 2 - 1) = Fin a \<and> s ! (n div 2) = Fin b \<and>
                   median_harian r = fl (fl (a + b) / 2)))"
    unfolding Let_def m using ne srt od ev by (simp add: length_np_sort count_np_sort)
  define p where "p = fmul med c115"
  define k where "k = round_half_even (p / 1000)"
  have ek: "estimasi_harian r = 1000 * k"
    using estimasi_value(1)[OF b] by (simp add: e k_def p_def)
  have kb: "\<bar>of_int k - p / 1000\<bar> \<le> 1 / 2" unfolding k_def by (rule round_half_even_bound)
  have d: "of_int (estimasi_harian r) - p = 1000 * (of_int k - p / 1000)"
    by (simp add: ek)
  have ad: "\<bar>of_int (estimasi_harian r) - p\<bar> = 1000 * \<bar>of_int k - p / 1000\<bar>"
    by (subst d) (simp only: abs_mult abs_numeral)
  have near: "\<bar>of_int (estimasi_harian r) - p\<bar> \<le> 500" using kb unfolding ad by simp
  have tie: "even (estimasi_harian r div 1000)" if "\<bar>of_int (estimasi_harian r) - p\<bar> = 500"
  proof -
    from that have "\<bar>of_int k - p / 1000\<bar> = 1 / 2" unfolding ad by simp
    then have "even k" unfolding k_def by (rule round_half_even_tie)
    then show ?thesis by (simp add: ek)
  qed
  have c: "c115 < 115 / 100" by (simp add: c115_value)
  have est: "estimasi_harian r = bulat_ribuan_genap (fmul (median_harian r) c115)"
    using ek by (simp add: bulat_ribuan_genap_def k_def p_def m)
  have dv: "1000 dvd estimasi_harian r" using ek by simp
  have near': "\<bar>of_int (estimasi_harian r) - fmul (median_harian r) c115\<bar> \<le> 500"
    using near by (simp add: p_def m)
  have tie': "\<bar>of_int (estimasi_harian r) - fmul (median_harian r) c115\<bar> = 500 \<longrightarrow>
        even (estimasi_harian r div 1000)"
    using tie by (simp add: p_def m)
  have med': "median (map Pengeluaran (filter_pengeluaran_rutin data)) = Fin (median_harian r)"
    using med m by simp
  show ?thesis
    using med' st est dv near' tie' c by blast
qed

theorem estimasi_harian_median_witness:
  "prediksi_harian 100000 (Some \<lparr>year = 2025, month = 10, day = 25\<rparr>)
     [\<lparr>Deskripsi = ''Teh -8191,2'', Pengeluaran = Fin (fl (81912 / 10))\<rparr>,
      \<lparr>Deskripsi = ''Kopi -8191,2'', Pengeluaran = Fin (fl (81912 / 10))\<rparr>,
      \<lparr>Deskripsi = ''Nasi -11808,8'', Pengeluaran = Fin (fl (118088 / 10))\<rparr>,
      \<lparr>Deskripsi = ''Soto -11808,8'', Pengeluaran = Fin (fl (118088 / 10))\<rparr>] =
     Inr \<lparr>sisa_hari = 5, median_harian = 10000, estimasi_harian = 12000,
          total_pengeluaran_sisa = 60000, estimasi_saldo_akhir = 40000,
          kategori_saldo = Tipis,
          saldo_harian = [100000, 88000, 76000, 64000, 52000, 40000],
          tanggal_list = [25, 26, 27, 28, 29, 30]\<rparr> \<and>
   median (map Pengeluaran (filter_pengeluaran_rutin
     [\<lparr>Deskripsi = ''Teh -8191,2'', Pengeluaran = Fin (fl (81912 / 10))\<rparr>,
      \<lparr>Deskripsi = ''Kopi -8191,2'', Pengeluaran = Fin (fl (81912 / 10))\<rparr>,
      \<lparr>Deskripsi = ''Nasi -11808,8'', Pengeluaran = Fin (fl (118088 / 10))\<rparr>,
      \<lparr>Deskripsi = ''Soto -11808,8'', Pengeluaran = Fin (fl (118088 / 10))\<rparr>])) = Fin 10000 \<and>
   fl (fl (fl (81912 / 10) + fl (118088 / 10)) / 2) = 10000 \<and>
   (fl (81912 / 10) + fl (118088 / 10)) / 2 \<noteq> 10000 \<and>
   fmul 10000 c115 = 11500 \<and>
   \<bar>of_int (12000 :: int) - (11500 :: rat)\<bar> = 500 \<and>
   bulat_ribuan_genap 11500 = 12000 \<and>
   even ((12000 :: int) div 1000)"
proof -
  have e1: "prediksi_harian 100000 (Some \<lparr>year = 2025, month = 10, day = 25\<rparr>)
     [\<lparr>Deskripsi = ''Teh -8191,2'', Pengeluaran = Fin (fl (81912 / 10))\<rparr>,
      \<lparr>Deskripsi = ''Kopi -8191,2'', Pengeluaran = Fin (fl (81912 / 10))\<rparr>,
      \<lparr>Deskripsi = ''Nasi -11808,8'', Pengeluaran = Fin (fl (118088 / 10))\<rparr>,
      \<lparr>Deskripsi = ''Soto -11808,8'', Pengeluaran = Fin (fl (118088 / 10))\<rparr>] =
     Inr \<lparr>sisa_hari = 5, median_harian = 10000, estimasi_harian = 12000,
          total_pengeluaran_sisa = 60000, estimasi_saldo_akhir = 40000,
          kategori_saldo = Tipis,
          saldo_harian = [100000, 88000, 76000, 64000, 52000, 40000],
          tanggal_list = [25, 26, 27, 28, 29, 30]\<rparr>"
    by code_simp
  have e2: "fmul 10000 c115 = 11500" by code_simp
  have e3: "\<bar>of_int (12000 :: int) - (11500 :: rat)\<bar> = 500" by simp
  have e4: "bulat_ribuan_genap 11500 = 12000" by code_simp
  have e5: "even ((12000 :: int) div 1000)" by simp
  have e6: "fl (fl (fl (81912 / 10) + fl (118088 / 10)) / 2) = 10000" by code_simp
  have e7: "(fl (81912 / 10) + fl (118088 / 10)) / 2 \<noteq> 10000" by code_simp
  note t = conjunct1[OF estimasi_harian_median [OF e1], unfolded hasil.select_convs]
  show ?thesis
    using t e1 e2 e3 e4 e5 e6 e7 by blast
qed

subsection \<open>The balance trajectory\<close>

text \<open>
  C7 as stated fails: the balance is a float and each subtraction of the loop rounds.
  From the balance 2^57 with two remaining days and the estimate 13000 the loop ends
  at 144115188075829888, while the balance minus 13000 * 2 is 144115188075829872 (the
  value of the final balance, computed by one subtraction).
\<close>

theorem simulasi_counterexample:
  "prediksi_harian 144115188075855872 (Some \<lparr>year = 2025, month = 10, day = 28\<rparr>)
     [\<lparr>Deskripsi = ''a'', Pengeluaran = Fin 10000\<rparr>, \<lparr>Deskripsi = ''b'', Pengeluaran = Fin 12000\<rparr>,
      \<lparr>Deskripsi = ''c'', Pengeluaran = Fin 11000\<rparr>, \<lparr>Deskripsi = ''d'', Pengeluaran = Fin 15000\<rparr>,
      \<lparr>Deskripsi = ''e'', Pengeluaran = Fin 9000\<rparr>] =
     Inr \<lparr>sisa_hari = 2, median_harian = 11000, estimasi_harian = 13000,
          total_pengeluaran_sisa = 26000, estimasi_saldo_akhir = 144115188075829872,
          kategori_saldo = Aman,
          saldo_harian = [144115188075855872, 144115188075842880, 144115188075829888],
          tanggal_list = [28, 29, 30]\<rparr> \<and>
   (144115188075829888 :: rat) \<noteq> 144115188075855872 - 13000 * 2 \<and>
   fl 144115188075855872 = 144115188075855872"
  by code_simp

text \<open>
  C7, amended: for every forecast that succeeds, with n remaining days, n is positive
  and the trajectory has exactly n + 1 points, for the days from the day of the date to
  day 30; the point at offset 0 is the balance and every further point is the binary64
  difference of the point before it and the daily estimate; the final balance is the
  binary64 value of the balance minus n times the daily estimate; the point at offset
  k is the balance minus k times the daily estimate whenever the balance minus j times
  the daily estimate is a binary64 value for every j from 0 to k; and when the balance
  is a whole number b with both b and b minus n times the daily estimate at most 2^53
  in magnitude, every point at offset k is the balance minus k times the daily estimate
  and the final balance is the balance minus n times the daily estimate.
\<close>

theorem simulasi_bentuk_tertutup:
  assumes "prediksi_harian saldo (Some tgl) data = Inr r"
  shows "0 < sisa_hari r \<and>
     length (saldo_harian r) = nat (sisa_hari r) + 1 \<and>
     tanggal_list r = map (\<lambda>k. int (day tgl) + k) [0..sisa_hari r] \<and>
     saldo_harian r ! 0 = saldo \<and>
     (\<forall>k<nat (sisa_hari r).
        saldo_harian r ! Suc k = fl (saldo_harian r ! k - of_int (estimasi_harian r))) \<and>
     estimasi_saldo_akhir r = fl (saldo - of_int (estimasi_harian r * sisa_hari r)) \<and>
     (\<forall>k\<le>nat (sisa_hari r).
        (\<forall>j\<le>k. fl (saldo - of_int (estimasi_harian r * int j)) =
                saldo - of_int (estimasi_harian r * int j)) \<longrightarrow>
        saldo_harian r ! k = saldo - of_int (estimasi_harian r * int k)) \<and>
     (\<forall>b. saldo = of_int b \<and> \<bar>b\<bar> \<le> 2 ^ 53 \<and> \<bar>b - estimasi_harian r * sisa_hari r\<bar> \<le> 2 ^ 53 \<longrightarrow>
        saldo_harian r = map (\<lambda>k. saldo - of_int (estimasi_harian r * k)) [0..sisa_hari r] \<and>
        estimasi_saldo_akhir r = saldo - of_int (estimasi_harian r * sisa_hari r))"
proof -
  from prediksi_Inr[OF assms] obtain med
    where med: "median (map Pengeluaran (filter_pengeluaran_rutin data)) = Fin med"
      and ne: "filter_pengeluaran_rutin data \<noteq> []"
      and pos: "0 < 30 - int (day tgl)"
      and r: "r = \<lparr>sisa_hari = 30 - int (day tgl),
          median_harian = med,
          estimasi_harian = py_int (round_ribuan (fmul med c115)),
          total_pengeluaran_sisa = py_int (round_ribuan (fmul med c115)) * (30 - int (day tgl)),
          estimasi_saldo_akhir = fsub saldo (int_to_float (py_int (round_ribuan (fmul med c115)) * (30 - int (day tgl)))),
          kategori_saldo = klasifikasi (fsub saldo (int_to_float (py_int (round_ribuan (fmul med c115)) * (30 - int (day tgl))))),
          saldo_harian = fst (snd (simulasi saldo (py_int (round_ribuan (fmul med c115))) (int (day tgl)) (30 - int (day tgl)))),
          tanggal_list = snd (snd (simulasi saldo (py_int (round_ribuan (fmul med c115))) (int (day tgl)) (30 - int (day tgl))))\<rparr>"
    by blast
  define e where "e = py_int (round_ribuan (fmul med c115))"
  define n where "n = 30 - int (day tgl)"
  define m where "m = nat n"
  have nm: "n = int m" using pos by (simp add: m_def n_def)
  have n30: "n \<le> 30" by (simp add: n_def)
  have n0: "0 \<le> n" using pos by (simp add: n_def)
  from median_rutin_filter[OF ne] med have b: "4998 \<le> med" "med \<le> 100002" by auto
  obtain k where ek: "e = 1000 * k" and k: "0 \<le> k" "k \<le> 116"
    using estimasi_value(1,2,3)[OF b] by (auto simp: e_def)
  have e0: "0 \<le> e" and e1: "e \<le> 116000" using ek k by simp_all
  have "\<bar>e\<bar> \<le> 2 ^ 53" using ek k by simp
  then have ef: "int_to_float e = of_int e" unfolding int_to_float_def by (rule fl_of_int)
  have "0 \<le> e * n" using e0 n0 by simp
  moreover have "e * n \<le> 116000 * 30" using e0 e1 n0 n30 by (intro mult_mono) simp_all
  ultimately have "\<bar>e * n\<bar> \<le> 2 ^ 53" by simp
  then have tf: "int_to_float (e * n) = of_int (e * n)" unfolding int_to_float_def by (rule fl_of_int)
  have sr: "sisa_hari r = n" "estimasi_harian r = e"
    "saldo_harian r = fst (snd (simulasi saldo e (int (day tgl)) n))"
    "tanggal_list r = snd (snd (simulasi saldo e (int (day tgl)) n))"
    "estimasi_saldo_akhir r = fsub saldo (int_to_float (e * n))"
    by (simp_all add: r e_def n_def)
  have sim: "simulasi saldo e (int (day tgl)) n =
     (saldo_ke saldo e m, map (saldo_ke saldo e) [0..<Suc m],
      map (\<lambda>k. int (day tgl) + k) [0..int m])"
    unfolding nm by (rule simulasi_saldo_ke[OF ef])
  have sh: "saldo_harian r = map (saldo_ke saldo e) [0..<Suc m]"
    and tl: "tanggal_list r = map (\<lambda>k. int (day tgl) + k) [0..int m]"
    by (simp_all only: sr sim fst_conv snd_conv)
  have nth: "saldo_harian r ! k = saldo_ke saldo e k" if "k \<le> m" for k
  proof -
    have "k < length [0..<Suc m]" using that by simp
    then have "map (saldo_ke saldo e) [0..<Suc m] ! k = saldo_ke saldo e ([0..<Suc m] ! k)"
      by (rule nth_map)
    also have "[0..<Suc m] ! k = k" using that nth_upt[of 0 k "Suc m"] by simp
    finally show ?thesis by (simp only: sh)
  qed
  have mn: "nat (sisa_hari r) = m" by (simp add: sr m_def)
  have p1: "0 < sisa_hari r" using pos sr(1) by (simp add: n_def)
  have p2: "length (saldo_harian r) = nat (sisa_hari r) + 1" by (simp add: sh mn)
  have p3: "tanggal_list r = map (\<lambda>k. int (day tgl) + k) [0..sisa_hari r]"
    by (simp only: tl sr nm)
  have p4: "saldo_harian r ! 0 = saldo" using nth[of 0] by simp
  have p5: "\<forall>k<nat (sisa_hari r).
        saldo_harian r ! Suc k = fl (saldo_harian r ! k - of_int (estimasi_harian r))"
  proof (intro allI impI)
    fix k assume "k < nat (sisa_hari r)"
    then have km: "Suc k \<le> m" "k \<le> m" by (simp_all add: mn)
    have a: "saldo_harian r ! Suc k = saldo_ke saldo e (Suc k)" by (rule nth[OF km(1)])
    have b: "saldo_harian r ! k = saldo_ke saldo e k" by (rule nth[OF km(2)])
    show "saldo_harian r ! Suc k = fl (saldo_harian r ! k - of_int (estimasi_harian r))"
      by (simp only: a b saldo_ke.simps sr(2))
  qed
  have p6: "estimasi_saldo_akhir r = fl (saldo - of_int (estimasi_harian r * sisa_hari r))"
    by (simp only: sr fsub_def tf)
  have p7: "\<forall>k\<le>nat (sisa_hari r).
        (\<forall>j\<le>k. fl (saldo - of_int (estimasi_harian r * int j)) =
                saldo - of_int (estimasi_harian r * int j)) \<longrightarrow>
        saldo_harian r ! k = saldo - of_int (estimasi_harian r * int k)"
  proof (intro allI impI)
    fix k assume km: "k \<le> nat (sisa_hari r)"
      and ex: "\<forall>j\<le>k. fl (saldo - of_int (estimasi_harian r * int j)) =
                saldo - of_int (estimasi_harian r * int j)"
    have "saldo_ke saldo e k = saldo - of_int (e * int k)"
      using ex unfolding sr(2) by (rule saldo_ke_exact)
    moreover have "k \<le> m" using km by (simp only: mn)
    then have "saldo_harian r ! k = saldo_ke saldo e k" by (rule nth)
    ultimately show "saldo_harian r ! k = saldo - of_int (estimasi_harian r * int k)"
      by (simp only: sr(2))
  qed
  have p8: "saldo_harian r = map (\<lambda>k. saldo - of_int (estimasi_harian r * k)) [0..sisa_hari r] \<and>
        estimasi_saldo_akhir r = saldo - of_int (estimasi_harian r * sisa_hari r)"
    if hb: "saldo = of_int b \<and> \<bar>b\<bar> \<le> 2 ^ 53 \<and> \<bar>b - estimasi_harian r * sisa_hari r\<bar> \<le> 2 ^ 53" for b
  proof -
    have sb: "saldo = of_int b" and b1: "\<bar>b\<bar> \<le> 2 ^ 53" and b2: "\<bar>b - e * n\<bar> \<le> 2 ^ 53"
      using hb by (simp_all add: sr(1,2))
    have ex: "fl (saldo - of_int (e * int j)) = saldo - of_int (e * int j)" if "j \<le> m" for j
    proof -
      have "e * int j \<le> e * n" using that e0 by (intro mult_left_mono) (simp_all add: nm)
      moreover have "0 \<le> e * int j" using e0 by simp
      ultimately have "\<bar>b - e * int j\<bar> \<le> 2 ^ 53" using b1 b2 by linarith
      then have "fl (of_int (b - e * int j)) = of_int (b - e * int j)" by (rule fl_of_int)
      then show ?thesis by (simp only: sb of_int_diff)
    qed
    have eq: "saldo_ke saldo e j = saldo - of_int (e * int j)" if "j \<le> m" for j
    proof (rule saldo_ke_exact, intro allI impI)
      fix i assume "i \<le> j"
      then have "i \<le> m" using that by simp
      then show "fl (saldo - of_int (e * int i)) = saldo - of_int (e * int i)" by (rule ex)
    qed
    have "map (saldo_ke saldo e) [0..<Suc m] = map (\<lambda>j. saldo - of_int (e * int j)) [0..<Suc m]"
    proof (rule map_cong[OF refl])
      fix j assume "j \<in> set [0..<Suc m]"
      then have "j \<le> m" by auto
      then show "saldo_ke saldo e j = saldo - of_int (e * int j)" by (rule eq)
    qed
    also have "\<dots> = map (\<lambda>k. saldo - of_int (e * k)) (map int [0..<Suc m])"
      by (simp only: map_map comp_def)
    also have "\<dots> = map (\<lambda>k. saldo - of_int (e * k)) [0..int m]"
      by (simp only: upto_map_int)
    finally have A: "saldo_harian r = map (\<lambda>k. saldo - of_int (estimasi_harian r * k)) [0..sisa_hari r]"
      by (simp only: sh sr(1,2) nm)
    have "fl (saldo - of_int (e * n)) = saldo - of_int (e * n)"
      using ex[of m] by (simp only: nm order_refl)
    then have B: "estimasi_saldo_akhir r = saldo - of_int (estimasi_harian r * sisa_hari r)"
      using p6 by (simp only: sr(1,2))
    show ?thesis using A B by blast
  qed
  show ?thesis using p1 p2 p3 p4 p5 p6 p7 p8 by blast
qed

theorem simulasi_bentuk_tertutup_witness:
  "prediksi_harian 100000 (Some \<lparr>year = 2025, month = 10, day = 25\<rparr>)
     [\<lparr>Deskripsi = ''a'', Pengeluaran = Fin 10000\<rparr>, \<lparr>Deskripsi = ''b'', Pengeluaran = Fin 12000\<rparr>,
      \<lparr>Deskripsi = ''c'', Pengeluaran = Fin 11000\<rparr>, \<lparr>Deskripsi = ''d'', Pengeluaran = Fin 15000\<rparr>,
      \<lparr>Deskripsi = ''e'', Pengeluaran = Fin 9000\<rparr>] =
     Inr \<lparr>sisa_hari = 5, median_harian = 11000, estimasi_harian = 13000,
          total_pengeluaran_sisa = 65000, estimasi_saldo_akhir = 35000,
          kategori_saldo = Tipis,
          saldo_harian = [100000, 87000, 74000, 61000, 48000, 35000],
          tanggal_list = [25, 26, 27, 28, 29, 30]\<rparr> \<and>
   (100000 :: rat) = of_int 100000 \<and> \<bar>100000 :: int\<bar> \<le> 2 ^ 53 \<and>
   \<bar>(100000 :: int) - 13000 * 5\<bar> \<le> 2 ^ 53 \<and>
   [100000, 87000, 74000, 61000, 48000, 35000 :: rat] =
     map (\<lambda>k. 100000 - of_int (13000 * k)) [0..5] \<and>
   [25, 26, 27, 28, 29, 30] = map (\<lambda>k. int 25 + k) [0..5] \<and>
   (35000 :: rat) = 100000 - of_int (13000 * 5) \<and>
   (35000 :: rat) = fl (100000 - of_int (13000 * 5)) \<and>
   (87000 :: rat) = fl (100000 - of_int 13000)"
proof -
  have e1: "prediksi_harian 100000 (Some \<lparr>year = 2025, month = 10, day = 25\<rparr>)
     [\<lparr>Deskripsi = ''a'', Pengeluaran = Fin 10000\<rparr>, \<lparr>Deskripsi = ''b'', Pengeluaran = Fin 12000\<rparr>,
      \<lparr>Deskripsi = ''c'', Pengeluaran = Fin 11000\<rparr>, \<lparr>Deskripsi = ''d'', Pengeluaran = Fin 15000\<rparr>,
      \<lparr>Deskripsi = ''e'', Pengeluaran = Fin 9000\<rparr>] =
     Inr \<lparr>sisa_hari = 5, median_harian = 11000, estimasi_harian = 13000,
          total_pengeluaran_sisa = 65000, estimasi_saldo_akhir = 35000,
          kategori_saldo = Tipis,
          saldo_harian = [100000, 87000, 74000, 61000, 48000, 35000],
          tanggal_list = [25, 26, 27, 28, 29, 30]\<rparr>"
    by code_simp
  have hb: "(100000 :: rat) = of_int 100000 \<and> \<bar>100000 :: int\<bar> \<le> 2 ^ 53 \<and>
      \<bar>(100000 :: int) - 13000 * 5\<bar> \<le> 2 ^ 53"
    by simp
  note t = simulasi_bentuk_tertutup [OF e1, unfolded hasil.select_convs tanggal.select_convs]
  from t hb have c: "[100000, 87000, 74000, 61000, 48000, 35000 :: rat] =
       map (\<lambda>k. 100000 - of_int (13000 * k)) [0..5]"
    "(35000 :: rat) = 100000 - of_int (13000 * 5)"
    by blast+
  from t have d: "[25, 26, 27, 28, 29, 30] = map (\<lambda>k. int 25 + k) [0..5]"
    "(35000 :: rat) = fl (100000 - of_int (13000 * 5))"
    by blast+
  have f: "(87000 :: rat) = fl (100000 - of_int 13000)" by code_simp
  show ?thesis using e1 hb c d f by blast
qed

end
